theory Spec2Isabelle
  imports Complex_Main "HOL-Library.Word" "HOL-Library.Signed_Division"
begin

unbundle bit_operations_syntax

section \<open>Machine integers and kernel helpers\<close>

text \<open>
  The sources are C for a 64-bit Linux kernel: \<open>u8\<close>, \<open>u32\<close> and \<open>u64\<close> are words whose
  arithmetic wraps; an \<open>int\<close>, \<open>s32\<close> or \<open>s64\<close> is the word of the same width read with
  \<open>sint\<close>; \<open>unsigned long\<close> is 64 bits wide.
\<close>

type_synonym u8 = "8 word"
type_synonym u32 = "32 word"
type_synonym u64 = "64 word"

text \<open>
  \<open>fls64\<close> is the kernel's "find last set": the 1-based position of the most significant
  set bit, 0 for the input 0.
\<close>

fun fls_nat :: "nat \<Rightarrow> nat" where
  "fls_nat n = (if n = 0 then 0 else Suc (fls_nat (n div 2)))"

declare fls_nat.simps [simp del]

definition fls64 :: "u64 \<Rightarrow> nat" where
  "fls64 a = fls_nat (unat a)"

section \<open>The cube root of \<open>tcp_leo_cubic.c\<close>\<close>

text \<open>The table \<open>v\<close> local to \<open>cubic_root\<close>.\<close>

definition cubic_root_v :: "u8 list" where
  "cubic_root_v =
    [  0,  54,  54,  54, 118, 118, 118, 118,
     123, 129, 134, 138, 143, 147, 151, 156,
     157, 161, 164, 168, 170, 173, 176, 179,
     181, 185, 187, 190, 192, 194, 197, 199,
     200, 202, 204, 206, 209, 211, 213, 215,
     217, 219, 221, 222, 224, 225, 227, 229,
     231, 232, 234, 236, 237, 239, 240, 242,
     244, 245, 246, 248, 250, 251, 252, 254]"

text \<open>
  The table path of \<open>cubic_root\<close>, taken when \<open>fls64 a < 7\<close>:
  \<open>return ((u32)v[(u32)a] + 35) >> 6\<close>. A read past the table is \<open>None\<close>.
\<close>

definition cubic_root_small :: "u64 \<Rightarrow> u32 option" where
  "cubic_root_small a =
    (let i = unat (ucast a :: u32) in
     if i < length cubic_root_v
     then Some (drop_bit 6 ((ucast (cubic_root_v ! i) :: u32) + 35))
     else None)"

text \<open>
  The initial estimate of the other path, the value of \<open>x\<close> before the Newton-Raphson
  step:
  \<^verbatim>\<open>
    b = ((b * 84) >> 8) - 1;
    shift = (a >> (b * 3));
    x = ((u32)(((u32)v[shift] + 10) << b)) >> 6;
  \<close>
  with \<open>b\<close>, \<open>shift\<close> and \<open>x\<close> of type \<open>u32\<close>. A shift by the width of its operand or more
  and a read past the table are undefined in C: the model answers \<open>None\<close> there.
\<close>

definition cubic_root_x0 :: "u64 \<Rightarrow> u32 option" where
  "cubic_root_x0 a =
    (let b0 = (of_nat (fls64 a) :: u32);
         b = drop_bit 8 (b0 * 84) - 1
     in if 64 \<le> unat (b * 3) then None
        else let shift = (ucast (drop_bit (unat (b * 3)) a) :: u32)
             in if length cubic_root_v \<le> unat shift then None
                else if 32 \<le> unat b then None
                else Some (drop_bit 6
                       (push_bit (unat b) ((ucast (cubic_root_v ! unat shift) :: u32) + 10))))"

text \<open>
  The Newton-Raphson step and the division by 3:
  \<^verbatim>\<open>
    x = (2 * x + (u32)div64_u64(a, (u64)x * (u64)(x - 1)));
    x = ((x * 341) >> 10);
  \<close>
  A division by zero is \<open>None\<close>.
\<close>

definition cubic_root_newton :: "u64 \<Rightarrow> u32 \<Rightarrow> u32 option" where
  "cubic_root_newton a x =
    (let d = (ucast x :: u64) * (ucast (x - 1) :: u64)
     in if d = 0 then None
        else let x1 = 2 * x + (ucast (a div d) :: u32)
             in Some (drop_bit 10 (x1 * 341)))"

definition cubic_root :: "u64 \<Rightarrow> u32 option" where
  "cubic_root a =
    (if fls64 a < 7 then cubic_root_small a
     else case cubic_root_x0 a of
            None \<Rightarrow> None
          | Some x \<Rightarrow> cubic_root_newton a x)"


section \<open>Kernel environment\<close>

text \<open>
  What the sources take from the kernel they are built against: the tick frequency
  \<open>HZ\<close> (a positive compile-time constant) and the conversions \<open>usecs_to_jiffies\<close> and
  \<open>msecs_to_jiffies\<close>, which depend on it. They are parameters of the model. The tick
  counters \<open>tcp_jiffies32\<close> and \<open>jiffies_64\<close> change with time and are arguments of the
  functions that read them.
\<close>

record kernel =
  HZ :: nat
  usecs_to_jiffies :: "u32 \<Rightarrow> u64"
  msecs_to_jiffies :: "u32 \<Rightarrow> u64"

text \<open>
  The kernel's sequence-number comparison: \<open>after(seq2, seq1)\<close> is
  \<open>(s32)(seq1 - seq2) < 0\<close>. Its \<open>clamp(x, lo, hi)\<close> is \<open>min(max(x, lo), hi)\<close>.
\<close>

definition after :: "u32 \<Rightarrow> u32 \<Rightarrow> bool" where
  "after seq2 seq1 = (sint (seq1 - seq2) < 0)"

definition clamp :: "u32 \<Rightarrow> u32 \<Rightarrow> u32 \<Rightarrow> u32" where
  "clamp x lo hi = min (max x lo) hi"

section \<open>Module parameters\<close>

text \<open>
  The \<open>int\<close> module parameters of \<open>tcp_leo_cubic.c\<close> and the three scale factors that
  \<open>cubictcp_register\<close> precomputes from them.
\<close>

record cubic_params =
  fast_convergence :: u32
  beta :: u32
  initial_ssthresh :: u32
  bic_scale :: u32
  tcp_friendliness :: u32
  hystart :: u32
  hystart_detect :: u32
  hystart_low_window :: u32
  hystart_ack_delta_us :: u32
  starlink_handover_start_ms :: u32
  starlink_handover_end_ms :: u32
  cube_rtt_scale :: u32
  beta_scale :: u32
  cube_factor :: u64

definition BICTCP_BETA_SCALE :: u32 where
  "BICTCP_BETA_SCALE = 1024"

definition BICTCP_HZ :: nat where
  "BICTCP_HZ = 10"

definition HYSTART_ACK_TRAIN :: u32 where
  "HYSTART_ACK_TRAIN = 1"

definition HYSTART_DELAY :: u32 where
  "HYSTART_DELAY = 2"

definition HYSTART_MIN_SAMPLES :: u8 where
  "HYSTART_MIN_SAMPLES = 8"

definition HYSTART_DELAY_MIN :: u32 where
  "HYSTART_DELAY_MIN = 4000"

definition HYSTART_DELAY_MAX :: u32 where
  "HYSTART_DELAY_MAX = 16000"

definition HYSTART_DELAY_THRESH :: "u32 \<Rightarrow> u32" where
  "HYSTART_DELAY_THRESH x = clamp x HYSTART_DELAY_MIN HYSTART_DELAY_MAX"

text \<open>
  The scale factors of \<open>cubictcp_register\<close>:
  \<^verbatim>\<open>
    beta_scale = 8*(BICTCP_BETA_SCALE+beta) / 3 / (BICTCP_BETA_SCALE - beta);
    cube_rtt_scale = (bic_scale * 10);
    cube_factor = 1ull << (10+3*BICTCP_HZ);
    do_div(cube_factor, bic_scale * 10);
  \<close>
  The first line is \<open>int\<close> arithmetic, whose division truncates; a division by zero is
  \<open>None\<close>.
\<close>

definition cubictcp_register :: "cubic_params \<Rightarrow> cubic_params option" where
  "cubictcp_register p =
    (if sint (BICTCP_BETA_SCALE - beta p) = 0 then None
     else if bic_scale p * 10 = 0 then None
     else Some (p\<lparr>
       beta_scale := word_of_int
         ((sint (8 * (BICTCP_BETA_SCALE + beta p)) sdiv 3) sdiv sint (BICTCP_BETA_SCALE - beta p)),
       cube_rtt_scale := bic_scale p * 10,
       cube_factor := push_bit (10 + 3 * BICTCP_HZ) 1 div ucast (bic_scale p * 10)\<rparr>))"

text \<open>The initial values of the module parameters.\<close>

definition initial_params :: cubic_params where
  "initial_params = \<lparr>fast_convergence = 1, beta = 717, initial_ssthresh = 0, bic_scale = 41,
     tcp_friendliness = 1, hystart = 1, hystart_detect = HYSTART_ACK_TRAIN OR HYSTART_DELAY,
     hystart_low_window = 16, hystart_ack_delta_us = 2000,
     starlink_handover_start_ms = 200, starlink_handover_end_ms = 200,
     cube_rtt_scale = 0, beta_scale = 0, cube_factor = 0\<rparr>"

section \<open>Connection state\<close>

text \<open>
  The fields of the kernel's socket that the two sources read or write. \<open>icsk_timeout\<close>
  is an \<open>unsigned long\<close>. \<open>sk_nospace\<close> stands for the test
  \<open>sk->sk_socket && test_bit(SOCK_NOSPACE, &sk->sk_socket->flags)\<close>, and
  \<open>sk_write_space_calls\<close> counts the calls of the callback \<open>sk->sk_write_space\<close>.
\<close>

record sock =
  snd_cwnd :: u32
  snd_ssthresh :: u32
  snd_una :: u32
  snd_nxt :: u32
  tcp_mstamp :: u64
  icsk_timeout :: u64
  sk_pacing_rate :: u64
  sk_pacing_status :: u32
  sk_gso_max_size :: u32
  sk_nospace :: bool
  sk_write_space_calls :: nat

definition SK_PACING_NONE :: u32 where
  "SK_PACING_NONE = 0"

text \<open>
  \<open>struct bictcp\<close>, the private area of the congestion control in \<open>tcp_leo_cubic.c\<close>,
  without its timer.
\<close>

record bictcp =
  cnt :: u32
  last_max_cwnd :: u32
  last_cwnd :: u32
  last_time :: u32
  bic_origin_point :: u32
  bic_K :: u32
  delay_min :: u32
  epoch_start :: u32
  ack_cnt :: u32
  tcp_cwnd :: u32
  unused :: "16 word"
  sample_cnt :: u8
  found :: u8
  round_start :: u32
  end_seq :: u32
  last_ack :: u32
  curr_rtt :: u32
  handover_free_pending :: bool

text \<open>A socket that runs \<open>leo-cubic\<close>: \<open>inet_csk_ca(sk)\<close> is \<open>icsk_ca\<close>.\<close>

record cubic_sock = sock +
  icsk_ca :: bictcp


section \<open>The congestion window engine of \<open>tcp_leo_cubic.c\<close>\<close>

text \<open>
  \<open>bictcp_reset\<close> clears the fields before \<open>unused\<close>
  (\<open>memset(ca, 0, offsetof(struct bictcp, unused))\<close>) and \<open>found\<close>.
\<close>

definition bictcp_reset :: "bictcp \<Rightarrow> bictcp" where
  "bictcp_reset ca = ca\<lparr>cnt := 0, last_max_cwnd := 0, last_cwnd := 0, last_time := 0,
     bic_origin_point := 0, bic_K := 0, delay_min := 0, epoch_start := 0, ack_cnt := 0,
     tcp_cwnd := 0, found := 0\<rparr>"

definition bictcp_clock_us :: "'a sock_scheme \<Rightarrow> u32" where
  "bictcp_clock_us sk = ucast (tcp_mstamp sk)"

definition bictcp_hystart_reset :: "cubic_sock \<Rightarrow> cubic_sock" where
  "bictcp_hystart_reset sk = sk\<lparr>icsk_ca := (icsk_ca sk)\<lparr>
     round_start := bictcp_clock_us sk, last_ack := bictcp_clock_us sk,
     end_seq := snd_nxt sk, curr_rtt := - 1, sample_cnt := 0\<rparr>\<rparr>"

text \<open>
  The loop of the TCP-friendly part of \<open>bictcp_update\<close>,
  \<^verbatim>\<open>
    while (ca->ack_cnt > delta) {
        ca->ack_cnt -= delta;
        ca->tcp_cwnd++;
    }
  \<close>
  on the pair \<open>(ack_cnt, tcp_cwnd)\<close>. With \<open>delta = 0\<close> and \<open>ack_cnt > 0\<close> it does not end.
\<close>

partial_function (option) tcp_friendliness_loop :: "u32 \<Rightarrow> u32 \<Rightarrow> u32 \<Rightarrow> (u32 \<times> u32) option" where
  "tcp_friendliness_loop delta ack tcpw =
    (if delta < ack then tcp_friendliness_loop delta (ack - delta) (tcpw + 1)
     else Some (ack, tcpw))"

text \<open>
  \<open>bictcp_update\<close> from the label \<open>tcp_friendliness\<close> to its end: the TCP-friendly
  cap and the final \<open>ca->cnt = max(ca->cnt, 2U)\<close>.
\<close>

definition bictcp_update_friendliness :: "cubic_params \<Rightarrow> bictcp \<Rightarrow> u32 \<Rightarrow> bictcp option" where
  "bictcp_update_friendliness p ca cwnd =
    (if tcp_friendliness p = 0 then Some (ca\<lparr>cnt := max (cnt ca) 2\<rparr>)
     else let delta = drop_bit 3 (cwnd * beta_scale p)
          in case tcp_friendliness_loop delta (ack_cnt ca) (tcp_cwnd ca) of
               None \<Rightarrow> None
             | Some (ack, tcpw) \<Rightarrow>
                 let ca1 = ca\<lparr>ack_cnt := ack, tcp_cwnd := tcpw\<rparr>;
                     ca2 = (if cwnd < tcpw
                            then let max_cnt = cwnd div (tcpw - cwnd)
                                 in if max_cnt < cnt ca1 then ca1\<lparr>cnt := max_cnt\<rparr> else ca1
                            else ca1)
                 in Some (ca2\<lparr>cnt := max (cnt ca2) 2\<rparr>))"

text \<open>
  The block \<open>if (ca->epoch_start == 0) { ... }\<close> of \<open>bictcp_update\<close>, which opens an
  epoch. \<open>cubic_root\<close> is applied to the \<open>u64\<close> product
  \<open>cube_factor * (ca->last_max_cwnd - cwnd)\<close>.
\<close>

definition bictcp_update_epoch ::
  "cubic_params \<Rightarrow> u32 \<Rightarrow> bictcp \<Rightarrow> u32 \<Rightarrow> u32 \<Rightarrow> bictcp option" where
  "bictcp_update_epoch p now ca cwnd acked =
    (if epoch_start ca = 0
     then let ca1 = ca\<lparr>epoch_start := now, ack_cnt := acked, tcp_cwnd := cwnd\<rparr>
          in if last_max_cwnd ca1 \<le> cwnd
             then Some (ca1\<lparr>bic_K := 0, bic_origin_point := cwnd\<rparr>)
             else case cubic_root (cube_factor p * ucast (last_max_cwnd ca1 - cwnd)) of
                    None \<Rightarrow> None
                  | Some r \<Rightarrow> Some (ca1\<lparr>bic_K := r, bic_origin_point := last_max_cwnd ca1\<rparr>)
     else Some ca)"

text \<open>
  The cubic function of \<open>bictcp_update\<close>, from \<open>t = (s32)(tcp_jiffies32 - ca->epoch_start)\<close>
  to the cap of \<open>cnt\<close> at 20 in the first epoch. \<open>t\<close> and \<open>offs\<close> are \<open>u64\<close>; \<open>delta\<close> and
  \<open>bic_target\<close> are \<open>u32\<close>.
\<close>

definition bictcp_update_cubic :: "kernel \<Rightarrow> cubic_params \<Rightarrow> u32 \<Rightarrow> bictcp \<Rightarrow> u32 \<Rightarrow> bictcp" where
  "bictcp_update_cubic k p now ca cwnd =
    (let t0 = (scast (now - epoch_start ca) :: u64) + usecs_to_jiffies k (delay_min ca);
         t = push_bit BICTCP_HZ t0 div of_nat (HZ k);
         K = (ucast (bic_K ca) :: u64);
         offs = (if t < K then K - t else t - K);
         delta = (ucast (drop_bit (10 + 3 * BICTCP_HZ)
                    ((ucast (cube_rtt_scale p) :: u64) * offs * offs * offs)) :: u32);
         bic_target = (if t < K then bic_origin_point ca - delta
                       else bic_origin_point ca + delta);
         cnt1 = (if cwnd < bic_target then cwnd div (bic_target - cwnd) else 100 * cwnd);
         cnt2 = (if last_max_cwnd ca = 0 \<and> 20 < cnt1 then 20 else cnt1)
     in ca\<lparr>cnt := cnt2\<rparr>)"

text \<open>
  \<open>bictcp_update(ca, cwnd, acked)\<close> at the tick \<open>now = tcp_jiffies32\<close>. The first test
  returns at once; the second jumps to the label \<open>tcp_friendliness\<close>.
\<close>

definition bictcp_update ::
  "kernel \<Rightarrow> cubic_params \<Rightarrow> u32 \<Rightarrow> bictcp \<Rightarrow> u32 \<Rightarrow> u32 \<Rightarrow> bictcp option" where
  "bictcp_update k p now ca0 cwnd acked =
    (let ca = ca0\<lparr>ack_cnt := ack_cnt ca0 + acked\<rparr>
     in if last_cwnd ca = cwnd \<and> sint (now - last_time ca) \<le> int (HZ k) div 32
        then Some ca
        else if epoch_start ca \<noteq> 0 \<and> now = last_time ca
        then bictcp_update_friendliness p ca cwnd
        else case bictcp_update_epoch p now (ca\<lparr>last_cwnd := cwnd, last_time := now\<rparr>)
                    cwnd acked of
               None \<Rightarrow> None
             | Some ca1 \<Rightarrow> bictcp_update_friendliness p (bictcp_update_cubic k p now ca1 cwnd) cwnd)"

text \<open>
  \<open>cubictcp_recalc_ssthresh\<close> returns the new state and the new slow-start threshold.
  The products are \<open>u32\<close>.
\<close>

definition cubictcp_recalc_ssthresh :: "cubic_params \<Rightarrow> cubic_sock \<Rightarrow> cubic_sock \<times> u32" where
  "cubictcp_recalc_ssthresh p sk =
    (let ca = (icsk_ca sk)\<lparr>epoch_start := 0\<rparr>;
         ca1 = (if snd_cwnd sk < last_max_cwnd ca \<and> fast_convergence p \<noteq> 0
                then ca\<lparr>last_max_cwnd :=
                       (snd_cwnd sk * (BICTCP_BETA_SCALE + beta p)) div (2 * BICTCP_BETA_SCALE)\<rparr>
                else ca\<lparr>last_max_cwnd := snd_cwnd sk\<rparr>)
     in (sk\<lparr>icsk_ca := ca1\<rparr>, max ((snd_cwnd sk * beta p) div BICTCP_BETA_SCALE) 2))"

definition TCP_CA_Loss :: u8 where
  "TCP_CA_Loss = 4"

definition cubictcp_state :: "cubic_sock \<Rightarrow> u8 \<Rightarrow> cubic_sock" where
  "cubictcp_state sk new_state =
    (if new_state = TCP_CA_Loss
     then bictcp_hystart_reset (sk\<lparr>icsk_ca := bictcp_reset (icsk_ca sk)\<rparr>)
     else sk)"

subsection \<open>Hybrid slow start\<close>

text \<open>
  \<open>hystart_ack_delay\<close>: \<open>min_t(u64, USEC_PER_MSEC, div64_ul((u64)sk->sk_gso_max_size * 4 *
  USEC_PER_SEC, rate))\<close>, or 0 without a pacing rate.
\<close>

definition hystart_ack_delay :: "'a sock_scheme \<Rightarrow> u32" where
  "hystart_ack_delay sk =
    (if sk_pacing_rate sk = 0 then 0
     else ucast (min (1000 :: u64)
            (((ucast (sk_gso_max_size sk) :: u64) * 4 * 1000000) div sk_pacing_rate sk)))"

text \<open>The ack-train detector of \<open>hystart_update\<close>.\<close>

definition hystart_ack_train :: "cubic_params \<Rightarrow> cubic_sock \<Rightarrow> cubic_sock" where
  "hystart_ack_train p sk =
    (let now = bictcp_clock_us sk; ca = icsk_ca sk
     in if sint (now - last_ack ca) \<le> sint (hystart_ack_delta_us p)
        then let t0 = delay_min ca + hystart_ack_delay sk;
                 threshold = (if sk_pacing_status sk = SK_PACING_NONE then drop_bit 1 t0 else t0);
                 sk1 = sk\<lparr>icsk_ca := ca\<lparr>last_ack := now\<rparr>\<rparr>
             in if threshold < now - round_start ca
                then sk1\<lparr>icsk_ca := (icsk_ca sk1)\<lparr>found := 1\<rparr>, snd_ssthresh := snd_cwnd sk1\<rparr>
                else sk1
        else sk)"

text \<open>The delay detector of \<open>hystart_update\<close>.\<close>

definition hystart_delay :: "cubic_sock \<Rightarrow> u32 \<Rightarrow> cubic_sock" where
  "hystart_delay sk delay =
    (let ca = icsk_ca sk;
         ca1 = (if delay < curr_rtt ca then ca\<lparr>curr_rtt := delay\<rparr> else ca)
     in if sample_cnt ca1 < HYSTART_MIN_SAMPLES
        then sk\<lparr>icsk_ca := ca1\<lparr>sample_cnt := sample_cnt ca1 + 1\<rparr>\<rparr>
        else if delay_min ca1 + HYSTART_DELAY_THRESH (drop_bit 3 (delay_min ca1)) < curr_rtt ca1
        then sk\<lparr>icsk_ca := ca1\<lparr>found := 1\<rparr>, snd_ssthresh := snd_cwnd sk\<rparr>
        else sk\<lparr>icsk_ca := ca1\<rparr>)"

definition hystart_update :: "cubic_params \<Rightarrow> cubic_sock \<Rightarrow> u32 \<Rightarrow> cubic_sock" where
  "hystart_update p sk delay =
    (let sk1 = (if after (snd_una sk) (end_seq (icsk_ca sk)) then bictcp_hystart_reset sk else sk);
         sk2 = (if hystart_detect p AND HYSTART_ACK_TRAIN = 0 then sk1 else hystart_ack_train p sk1)
     in if hystart_detect p AND HYSTART_DELAY = 0 then sk2 else hystart_delay sk2 delay)"

text \<open>
  \<open>cubictcp_acked\<close> with the sample \<open>rtt_us\<close> (an \<open>s32\<close>) at the tick \<open>now = tcp_jiffies32\<close>.
  \<open>tcp_in_slow_start\<close> is the kernel's \<open>snd_cwnd < snd_ssthresh\<close>.
\<close>

definition tcp_in_slow_start :: "'a sock_scheme \<Rightarrow> bool" where
  "tcp_in_slow_start sk = (snd_cwnd sk < snd_ssthresh sk)"

definition cubictcp_acked :: "kernel \<Rightarrow> cubic_params \<Rightarrow> u32 \<Rightarrow> cubic_sock \<Rightarrow> u32 \<Rightarrow> cubic_sock" where
  "cubictcp_acked k p now sk rtt_us =
    (let ca = icsk_ca sk
     in if sint rtt_us < 0 then sk
        else if epoch_start ca \<noteq> 0 \<and> sint (now - epoch_start ca) < int (HZ k) then sk
        else let delay = (if rtt_us = 0 then 1 else rtt_us);
                 ca1 = (if delay_min ca = 0 \<or> delay < delay_min ca
                        then ca\<lparr>delay_min := delay\<rparr> else ca);
                 sk1 = sk\<lparr>icsk_ca := ca1\<rparr>
             in if found ca1 = 0 \<and> tcp_in_slow_start sk1 \<and> hystart p \<noteq> 0 \<and>
                   hystart_low_window p \<le> snd_cwnd sk1
                then hystart_update p sk1 delay
                else sk1)"


section \<open>The transmission gate of \<open>tcp_leo_cubic.c\<close>\<close>

text \<open>
  The functions of \<open>tcp_leo_cubic.c\<close> whose names \<open>tcp_leo.c\<close> uses too carry the suffix
  \<open>_cubic\<close> here. \<open>tcp_snd_cwnd_set(tp, val)\<close> stores \<open>val\<close> in \<open>snd_cwnd\<close>, and
  \<open>max(1, ca->last_cwnd)\<close> compares as \<open>u32\<close>.
\<close>

definition leo_suspend_transmission_cubic :: "cubic_sock \<Rightarrow> cubic_sock" where
  "leo_suspend_transmission_cubic sk =
    sk\<lparr>icsk_ca := (icsk_ca sk)\<lparr>last_cwnd := snd_cwnd sk\<rparr>, snd_cwnd := 0\<rparr>"

definition leo_resume_transmission_cubic :: "cubic_sock \<Rightarrow> cubic_sock" where
  "leo_resume_transmission_cubic sk = sk\<lparr>snd_cwnd := max 1 (last_cwnd (icsk_ca sk))\<rparr>"

definition leo_handover_start_cubic :: "cubic_sock \<Rightarrow> cubic_sock" where
  "leo_handover_start_cubic sk =
    (if snd_cwnd sk = 0 then sk else leo_suspend_transmission_cubic sk)"

definition leo_handover_end_cubic :: "cubic_sock \<Rightarrow> cubic_sock" where
  "leo_handover_end_cubic sk =
    (if snd_cwnd sk \<noteq> 0 then sk
     else let sk1 = leo_resume_transmission_cubic sk
          in if sk_nospace sk1
             then sk1\<lparr>sk_write_space_calls := Suc (sk_write_space_calls sk1)\<rparr>
             else sk1)"

section \<open>The phase clock and the transmission gate of \<open>tcp_leo.c\<close>\<close>

record leo_params =
  leo_handover_start_ms :: u32
  leo_handover_end_ms :: u32

definition NSEC_PER_SEC :: u64 where
  "NSEC_PER_SEC = 1000000000"

definition NSEC_PER_MSEC :: u64 where
  "NSEC_PER_MSEC = 1000000"

definition SEC_PER_MIN :: u64 where
  "SEC_PER_MIN = 60"

definition NSEC_PER_MIN :: u64 where
  "NSEC_PER_MIN = SEC_PER_MIN * NSEC_PER_SEC"

definition LEO_HANDOVER_OFFSET_DEFAULT :: u32 where
  "LEO_HANDOVER_OFFSET_DEFAULT = 200"

definition LEO_HANDOVER_OFFSET_MAX :: u64 where
  "LEO_HANDOVER_OFFSET_MAX = 1000"

text \<open>
  The macro \<open>__LEO_HANDOVER_OFFSET(v)\<close>, applied to an \<open>int\<close> parameter: \<open>(u64)(v)\<close>
  extends the sign.
\<close>

definition LEO_HANDOVER_OFFSET :: "u32 \<Rightarrow> u64" where
  "LEO_HANDOVER_OFFSET v =
    (if (scast v :: u64) \<le> LEO_HANDOVER_OFFSET_MAX then scast v else LEO_HANDOVER_OFFSET_MAX)"

definition LEO_HANDOVER_OFFSET_START :: "leo_params \<Rightarrow> u64" where
  "LEO_HANDOVER_OFFSET_START lp = LEO_HANDOVER_OFFSET (leo_handover_start_ms lp)"

definition LEO_HANDOVER_OFFSET_END :: "leo_params \<Rightarrow> u64" where
  "LEO_HANDOVER_OFFSET_END lp = LEO_HANDOVER_OFFSET (leo_handover_end_ms lp)"

definition initial_leo_params :: leo_params where
  "initial_leo_params = \<lparr>leo_handover_start_ms = LEO_HANDOVER_OFFSET_DEFAULT,
     leo_handover_end_ms = LEO_HANDOVER_OFFSET_DEFAULT\<rparr>"

text \<open>The same macro of \<open>tcp_leo_cubic.c\<close>, \<open>__STARLINK_HANDOVER_OFFSET(v)\<close>.\<close>

definition STARLINK_HANDOVER_OFFSET_DEFAULT :: u32 where
  "STARLINK_HANDOVER_OFFSET_DEFAULT = 200"

definition STARLINK_HANDOVER_OFFSET_MAX :: u64 where
  "STARLINK_HANDOVER_OFFSET_MAX = 1000"

definition STARLINK_HANDOVER_OFFSET :: "u32 \<Rightarrow> u64" where
  "STARLINK_HANDOVER_OFFSET v =
    (if (scast v :: u64) \<le> STARLINK_HANDOVER_OFFSET_MAX then scast v
     else STARLINK_HANDOVER_OFFSET_MAX)"

definition STARLINK_HANDOVER_OFFSET_START :: "cubic_params \<Rightarrow> u64" where
  "STARLINK_HANDOVER_OFFSET_START p = STARLINK_HANDOVER_OFFSET (starlink_handover_start_ms p)"

definition STARLINK_HANDOVER_OFFSET_END :: "cubic_params \<Rightarrow> u64" where
  "STARLINK_HANDOVER_OFFSET_END p = STARLINK_HANDOVER_OFFSET (starlink_handover_end_ms p)"

text \<open>
  What the specification says of the offsets, for comparison with the macros: a
  configured value clamped to the range from 0 to 1000.
\<close>

definition spec_offset_clamp :: "int \<Rightarrow> int" where
  "spec_offset_clamp v = min (max v 0) 1000"

definition LEO_HANDOVER_TIME :: "kernel \<Rightarrow> u64" where
  "LEO_HANDOVER_TIME k = 12 * NSEC_PER_SEC * of_nat (HZ k)"

definition LEO_HANDOVER_START :: "kernel \<Rightarrow> leo_params \<Rightarrow> u64" where
  "LEO_HANDOVER_START k lp =
    LEO_HANDOVER_TIME k - LEO_HANDOVER_OFFSET_START lp * NSEC_PER_MSEC * of_nat (HZ k)"

definition LEO_HANDOVER_END :: "kernel \<Rightarrow> leo_params \<Rightarrow> u64" where
  "LEO_HANDOVER_END k lp =
    LEO_HANDOVER_TIME k + LEO_HANDOVER_OFFSET_END lp * NSEC_PER_MSEC * of_nat (HZ k)"

definition LEO_HANDOVER_INTERVAL :: "kernel \<Rightarrow> u64" where
  "LEO_HANDOVER_INTERVAL k = 15 * NSEC_PER_SEC * of_nat (HZ k)"


text \<open>\<open>leo_jiffies\<close> with the global \<open>leo_jiffies_base\<close> and the tick counter.\<close>

definition leo_jiffies :: "kernel \<Rightarrow> u64 \<Rightarrow> u64 \<Rightarrow> u64" where
  "leo_jiffies k leo_jiffies_base jiffies_64 =
    (leo_jiffies_base + jiffies_64 * NSEC_PER_SEC) mod (NSEC_PER_MIN * of_nat (HZ k))"

definition is_leo_handover :: "kernel \<Rightarrow> leo_params \<Rightarrow> u64 \<Rightarrow> u64 \<Rightarrow> bool" where
  "is_leo_handover k lp leo_jiffies_base jiffies_64 =
    (let njiffies = leo_jiffies k leo_jiffies_base jiffies_64 mod LEO_HANDOVER_INTERVAL k
     in LEO_HANDOVER_START k lp \<le> njiffies \<and> njiffies \<le> LEO_HANDOVER_END k lp)"

text \<open>
  \<open>leo_handover_duration\<close> adds the two \<open>int\<close> parameters as they are and returns the
  sum as \<open>unsigned long\<close>; \<open>msecs_to_jiffies\<close> takes an \<open>unsigned int\<close>.
\<close>

definition leo_handover_duration :: "leo_params \<Rightarrow> u64" where
  "leo_handover_duration lp = scast (leo_handover_start_ms lp + leo_handover_end_ms lp)"

text \<open>
  \<open>leo_suspend_transmission\<close> of \<open>tcp_leo.c\<close>; the assignment to \<open>last_snd_cwnd\<close> there
  is compiled out (\<open>#if 0\<close>).
\<close>

definition leo_suspend_transmission :: "kernel \<Rightarrow> leo_params \<Rightarrow> 'a sock_scheme \<Rightarrow> 'a sock_scheme" where
  "leo_suspend_transmission k lp sk =
    (let sk1 = sk\<lparr>snd_cwnd := 0\<rparr>
     in if icsk_timeout sk1 \<noteq> 0
        then sk1\<lparr>icsk_timeout :=
               icsk_timeout sk1 + msecs_to_jiffies k (ucast (leo_handover_duration lp))\<rparr>
        else sk1)"

definition leo_resume_transmission :: "'a sock_scheme \<Rightarrow> u32 \<Rightarrow> 'a sock_scheme" where
  "leo_resume_transmission sk last_snd_cwnd = sk\<lparr>snd_cwnd := max 1 last_snd_cwnd\<rparr>"

definition leo_handover_start :: "kernel \<Rightarrow> leo_params \<Rightarrow> 'a sock_scheme \<Rightarrow> 'a sock_scheme" where
  "leo_handover_start k lp sk =
    (if snd_cwnd sk = 0 then sk else leo_suspend_transmission k lp sk)"

text \<open>\<open>leo_handover_end\<close> as built without \<open>TCP_LEO\<close>.\<close>

definition leo_handover_end :: "'a sock_scheme \<Rightarrow> u32 \<Rightarrow> 'a sock_scheme" where
  "leo_handover_end sk last_snd_cwnd =
    (if snd_cwnd sk \<noteq> 0 then sk
     else let sk1 = leo_resume_transmission sk last_snd_cwnd
          in if sk_nospace sk1
             then sk1\<lparr>sk_write_space_calls := Suc (sk_write_space_calls sk1)\<rparr>
             else sk1)"

text \<open>
  \<open>struct leo\<close> holds a pointer \<open>last_snd_cwnd\<close> to a \<open>u32\<close> of the congestion control
  that called \<open>leo_init\<close>. A \<open>leo_conn\<close> is the socket together with the value stored
  there. \<open>leo_handover\<close> is the body of the timer callback as built without
  \<open>LEO_HANDOVER_TIMER_ONLY\<close>, up to the re-arming of the timer.
\<close>

record leo_conn =
  leo_sock :: sock
  last_snd_cwnd_cell :: u32

definition LEO_HANDOVER_TIME_JITTER :: "kernel \<Rightarrow> u64" where
  "LEO_HANDOVER_TIME_JITTER k = 10 * NSEC_PER_MSEC * of_nat (HZ k)"

definition leo_handover :: "kernel \<Rightarrow> leo_params \<Rightarrow> u64 \<Rightarrow> u64 \<Rightarrow> leo_conn \<Rightarrow> leo_conn" where
  "leo_handover k lp leo_jiffies_base jiffies_64 leo =
    (let sk = leo_sock leo;
         njiffies = leo_jiffies k leo_jiffies_base jiffies_64 mod LEO_HANDOVER_INTERVAL k
     in if LEO_HANDOVER_END k lp \<le> njiffies + LEO_HANDOVER_TIME_JITTER k
        then leo\<lparr>leo_sock := leo_handover_end sk (last_snd_cwnd_cell leo)\<rparr>
        else if LEO_HANDOVER_START k lp \<le> njiffies + LEO_HANDOVER_TIME_JITTER k
        then leo\<lparr>leo_sock := leo_handover_start k lp sk\<rparr>
        else if snd_cwnd sk = 0
        then leo\<lparr>leo_sock := leo_handover_end sk (last_snd_cwnd_cell leo)\<rparr>
        else leo)"


section \<open>The cube root over the natural numbers\<close>

text \<open>
  What \<open>cubic_root\<close> computes on its second path, written over the natural numbers,
  where nothing wraps: \<open>cr_tab s\<close> is the table entry \<open>v[s]\<close>; \<open>cr_bp n\<close> is the value
  of \<open>b\<close> after \<open>b = ((b * 84) >> 8) - 1\<close>, so that the table index is \<open>n div 8 ^ cr_bp n\<close>;
  \<open>cell_x k s\<close> is the initial estimate for \<open>b = k\<close> and index \<open>s\<close>; \<open>cell_R k s n\<close> is
  the result of the Newton-Raphson step and the division by 3 from that estimate;
  \<open>cr_nat n\<close> is the result for the input \<open>n\<close>. The inputs that share \<open>k\<close> and \<open>s\<close> form a
  cell, the interval from \<open>s * 8 ^ k\<close> up to \<open>(s + 1) * 8 ^ k\<close>.
\<close>

definition cr_tab :: "nat \<Rightarrow> nat" where
  "cr_tab s = unat (cubic_root_v ! s)"

definition cell_x :: "nat \<Rightarrow> nat \<Rightarrow> nat" where
  "cell_x k s = (cr_tab s + 10) * 2 ^ k div 64"

definition cell_R :: "nat \<Rightarrow> nat \<Rightarrow> nat \<Rightarrow> nat" where
  "cell_R k s n = (2 * cell_x k s + n div (cell_x k s * (cell_x k s - 1))) * 341 div 1024"

definition cr_bp :: "nat \<Rightarrow> nat" where
  "cr_bp n = fls_nat n * 84 div 256 - 1"

definition cr_nat :: "nat \<Rightarrow> nat" where
  "cr_nat n = cell_R (cr_bp n) (n div 8 ^ cr_bp n) n"

text \<open>\<open>all_from P lo k\<close>: \<open>P\<close> holds at \<open>lo\<close>, \<open>lo + 1\<close>, ..., \<open>lo + k - 1\<close>.\<close>

fun all_from :: "(nat \<Rightarrow> bool) \<Rightarrow> nat \<Rightarrow> nat \<Rightarrow> bool" where
  "all_from P lo 0 = True"
| "all_from P lo (Suc k) = (P lo \<and> all_from P (Suc lo) k)"

text \<open>
  Four checks that are evaluated on the table.
  \<^item> \<open>ovf_bound k\<close> bounds the \<open>u32\<close> product \<open>x * 341\<close> of the last line of \<open>cubic_root\<close>
    over all cells of \<open>k\<close>.
  \<^item> \<open>bnd k s\<close>: the result at the last input of the cell \<open>(k, s)\<close> does not exceed the
    result at the first input of the next cell.
  \<^item> \<open>up_ok s w\<close>: at the input \<open>w * 8 ^ e\<close> of a cell \<open>(e + 6, s)\<close>, the result before
    rounding, with the divisor \<open>x * (x - 1)\<close> bounded below by \<open>265 / 266 * x\<^sup>2\<close>, is at most
    1.003 times the cube root; the inequality is cubed and cleared of fractions.
  \<^item> \<open>low_cert k r\<close>: the first input whose cube root exceeds \<open>r / 0.997\<close> lies in a cell
    of \<open>k\<close> and has a result above \<open>r\<close>.
\<close>

definition ovf_bound :: "nat \<Rightarrow> nat" where
  "ovf_bound k =
    (2 * (264 * 2 ^ k div 64)
      + (min (64 * 8 ^ k) (2 ^ 64) - 1) div ((133 * 2 ^ k div 64) * (133 * 2 ^ k div 64 - 1))) * 341"

definition bnd :: "nat \<Rightarrow> nat \<Rightarrow> bool" where
  "bnd k s =
    (if s = 63 then cell_R k 63 (64 * 8 ^ k - 1) \<le> cell_R (Suc k) 8 (64 * 8 ^ k)
     else cell_R k s (Suc s * 8 ^ k - 1) \<le> cell_R k (Suc s) (Suc s * 8 ^ k))"

definition up_ok :: "nat \<Rightarrow> nat \<Rightarrow> bool" where
  "up_ok s w =
    ((341000 * (530 * (cr_tab s + 10) ^ 3 + 266 * w)) ^ 3
       \<le> (272174080 * (cr_tab s + 10)\<^sup>2) ^ 3 * w)"

definition low_cert :: "nat \<Rightarrow> nat \<Rightarrow> bool" where
  "low_cert k r =
    (let n = (1000 * r) ^ 3 div 997 ^ 3 + 1
     in 8 * 8 ^ k \<le> n \<and> n < 64 * 8 ^ k \<and> Suc r \<le> cell_R k (n div 8 ^ k) n)"

section \<open>Concrete instances\<close>

text \<open>
  A kernel whose tick is a millisecond, the module parameters after registration, and
  connections to evaluate the functions on. On a 64-bit kernel with \<open>HZ = 1000\<close>,
  \<open>MAX_JIFFY_OFFSET\<close> is \<open>(LONG_MAX >> 1) - 1\<close>; \<open>msecs_to_jiffies(m)\<close> is
  \<open>MAX_JIFFY_OFFSET\<close> when \<open>(int)m < 0\<close> and \<open>m\<close> otherwise; \<open>usecs_to_jiffies(u)\<close> is
  \<open>MAX_JIFFY_OFFSET\<close> when \<open>u\<close> exceeds \<open>jiffies_to_usecs(MAX_JIFFY_OFFSET)\<close>, the \<open>unsigned int\<close>
  \<open>1000 * MAX_JIFFY_OFFSET\<close>, and \<open>(u + 999) / 1000\<close> otherwise.
\<close>

definition MAX_JIFFY_OFFSET :: u64 where
  "MAX_JIFFY_OFFSET = drop_bit 1 0x7FFFFFFFFFFFFFFF - 1"

definition kernel_hz1000 :: kernel where
  "kernel_hz1000 = \<lparr>HZ = 1000,
     usecs_to_jiffies =
       (\<lambda>u. if (ucast (1000 * MAX_JIFFY_OFFSET) :: u32) < u then MAX_JIFFY_OFFSET
            else (ucast u + 999) div 1000),
     msecs_to_jiffies = (\<lambda>m. if sint m < 0 then MAX_JIFFY_OFFSET else ucast m)\<rparr>"

definition registered_params :: cubic_params where
  "registered_params =
    (case cubictcp_register initial_params of None \<Rightarrow> initial_params | Some p \<Rightarrow> p)"

definition zero_bictcp :: bictcp where
  "zero_bictcp = \<lparr>cnt = 0, last_max_cwnd = 0, last_cwnd = 0, last_time = 0,
     bic_origin_point = 0, bic_K = 0, delay_min = 0, epoch_start = 0, ack_cnt = 0,
     tcp_cwnd = 0, unused = 0, sample_cnt = 0, found = 0, round_start = 0, end_seq = 0,
     last_ack = 0, curr_rtt = 0, handover_free_pending = False\<rparr>"

text \<open>
  A socket with window \<open>w\<close> and a pending retransmission deadline \<open>timeout\<close>, in slow
  start under the initial threshold \<open>TCP_INFINITE_SSTHRESH\<close>.
\<close>

definition example_sock :: "u32 \<Rightarrow> u64 \<Rightarrow> sock" where
  "example_sock w timeout = \<lparr>snd_cwnd = w, snd_ssthresh = 0x7fffffff, snd_una = 500,
     snd_nxt = 1000, tcp_mstamp = 100000, icsk_timeout = timeout, sk_pacing_rate = 0,
     sk_pacing_status = SK_PACING_NONE, sk_gso_max_size = 65536, sk_nospace = False,
     sk_write_space_calls = 0\<rparr>"

definition example_cubic_sock :: "u32 \<Rightarrow> u64 \<Rightarrow> bictcp \<Rightarrow> cubic_sock" where
  "example_cubic_sock w timeout ca = \<lparr>snd_cwnd = w, snd_ssthresh = 0x7fffffff, snd_una = 500,
     snd_nxt = 1000, tcp_mstamp = 100000, icsk_timeout = timeout, sk_pacing_rate = 0,
     sk_pacing_status = SK_PACING_NONE, sk_gso_max_size = 65536, sk_nospace = False,
     sk_write_space_calls = 0, icsk_ca = ca\<rparr>"

text \<open>
  A connection in slow start at window 20 on which \<open>bictcp_update\<close> has not run yet (its
  \<open>cnt\<close>, \<open>last_cwnd\<close> and \<open>last_time\<close> are as \<open>bictcp_reset\<close> leaves them), in a round of
  8 delay samples whose minimum is 19000, with \<open>delay_min\<close> 10000. Then the trace: an
  acknowledgement with the sample 19000 at the tick \<open>0xFFFB6C20\<close>, a suspension, and a
  resumption.
\<close>

definition slow_start_round_sock :: cubic_sock where
  "slow_start_round_sock = example_cubic_sock 20 0
     ((bictcp_reset zero_bictcp)
        \<lparr>delay_min := 10000, curr_rtt := 19000, sample_cnt := 8, end_seq := 1000\<rparr>)"

definition handover_trace_sock :: cubic_sock where
  "handover_trace_sock =
     leo_handover_end_cubic (leo_handover_start_cubic
       (cubictcp_acked kernel_hz1000 registered_params 0xFFFB6C20 slow_start_round_sock 19000))"

section \<open>Word arithmetic read as numbers\<close>

lemma unat_push_bit_exact:
  fixes w :: "'a::len word"
  assumes "unat w * 2 ^ n < 2 ^ LENGTH('a)"
  shows "unat (push_bit n w) = unat w * 2 ^ n"
  using assms by (subst unsigned_push_bit_eq) (simp add: push_bit_eq_mult take_bit_nat_eq_self)

lemma unat_drop_bit_div:
  fixes w :: "'a::len word"
  shows "unat (drop_bit n w) = unat w div 2 ^ n"
  by (subst unat_drop_bit_eq) (simp add: drop_bit_eq_div)

lemma unat_ucast_8_32: "unat (ucast (w :: u8) :: u32) = unat w"
proof -
  have "unat w < 2 ^ 8" using unsigned_less [of w] by simp
  then have "unat w < 2 ^ 32" by simp
  then show ?thesis by (simp add: unsigned_ucast_eq take_bit_nat_eq_self)
qed

lemma unat_ucast_32_64: "unat (ucast (w :: u32) :: u64) = unat w"
proof -
  have "unat w < 2 ^ 32" using unsigned_less [of w] by simp
  then have "unat w < 2 ^ 64" by simp
  then show ?thesis by (simp add: unsigned_ucast_eq take_bit_nat_eq_self)
qed

lemma unat_ucast_64_32: "unat (ucast (w :: u64) :: u32) = unat w mod 2 ^ 32"
  by (simp add: unsigned_ucast_eq take_bit_eq_mod)

lemma ucast_scast_32_64: "(ucast (scast (w :: u32) :: u64) :: u32) = w"
  by (rule bit_word_eqI) (auto simp add: bit_word_ucast_iff bit_word_scast_iff)

lemma uint_scast_32_64: "uint (scast (w :: u32) :: u64) = sint w mod 2 ^ 64"
  unfolding scast_eq uint_word_of_int by simp

lemma sint_bounds_32: "- (2 ^ 31) \<le> sint (w :: u32) \<and> sint w < 2 ^ 31"
  using sint_ge [of w] sint_lt [of w] by simp

lemma max_one_word: "1 \<le> max 1 (w :: u32)"
  by simp

lemma max_one_id: "1 \<le> (w :: u32) \<Longrightarrow> max 1 w = w"
  by (simp add: max_def)

lemma word_ge_one_neq_zero: "1 \<le> (w :: u32) \<Longrightarrow> w \<noteq> 0"
  by auto

lemma registered_params_eq:
  "registered_params =
     initial_params\<lparr>cube_rtt_scale := 410, beta_scale := 15, cube_factor := 2681735677\<rparr>"
  by (simp add: registered_params_def cubictcp_register_def initial_params_def BICTCP_BETA_SCALE_def
      BICTCP_HZ_def signed_divide_int_def)

section \<open>The cube root never divides by zero\<close>

lemma fls_nat_bounds: "0 < n \<Longrightarrow> 2 ^ (fls_nat n - 1) \<le> n \<and> n < 2 ^ fls_nat n"
proof (induction n rule: fls_nat.induct)
  case (1 n)
  show ?case
  proof (cases "n div 2 = 0")
    case True
    with 1 have "n = 1" by auto
    then show ?thesis by (simp add: fls_nat.simps)
  next
    case False
    then have pos: "0 < n div 2" by simp
    from 1 pos have IH: "2 ^ (fls_nat (n div 2) - 1) \<le> n div 2 \<and> n div 2 < 2 ^ fls_nat (n div 2)"
      by simp
    have f: "fls_nat n = Suc (fls_nat (n div 2))" using 1(2) by (subst fls_nat.simps) simp
    have g: "0 < fls_nat (n div 2)" using pos by (subst fls_nat.simps) simp
    from IH f g show ?thesis
      by (cases "fls_nat (n div 2)") auto
  qed
qed

lemma fls_nat_le: "n < 2 ^ k \<Longrightarrow> fls_nat n \<le> k"
proof (induction n arbitrary: k rule: fls_nat.induct)
  case (1 n)
  show ?case
  proof (cases "n = 0")
    case True then show ?thesis by (simp add: fls_nat.simps)
  next
    case False
    then obtain k' where k: "k = Suc k'" using 1(2) by (cases k) auto
    with 1(2) have "n div 2 < 2 ^ k'" by auto
    with 1(1) False have "fls_nat (n div 2) \<le> k'" by simp
    with False k show ?thesis by (subst fls_nat.simps) simp
  qed
qed

lemma fls64_le: "fls64 a \<le> 64"
  unfolding fls64_def using fls_nat_le [of "unat a" 64] unsigned_less [of a] by simp

lemma b_step:
  assumes "7 \<le> b" "b \<le> 64"
  shows "unat (drop_bit 8 ((of_nat b :: u32) * 84) - 1) = b * 84 div 256 - 1"
proof -
  have b: "unat (of_nat b :: u32) = b" using assms by (simp add: unat_of_nat)
  have "unat (of_nat b :: u32) * unat (84 :: u32) < 2 ^ LENGTH(32)"
    using assms by (simp add: b)
  then have m: "unat ((of_nat b :: u32) * 84) = b * 84"
    using b by (simp add: unat_mult_lem [THEN iffD1])
  have d: "unat (drop_bit 8 ((of_nat b :: u32) * 84)) = b * 84 div 256"
    by (simp add: drop_bit_eq_div unat_div m)
  have "1 \<le> b * 84 div 256" using assms by simp
  then have "(1 :: u32) \<le> drop_bit 8 ((of_nat b :: u32) * 84)"
    by (simp add: word_le_nat_alt d)
  then show ?thesis by (simp add: unat_sub d)
qed

lemma b_scaled:
  assumes "7 \<le> b" "b \<le> 64"
  shows "b * 84 div 256 = (b - 1) div (3::nat)"
proof -
  define j where "j = (b - 1) div 3"
  define r where "r = (b - 1) mod 3"
  have "b - 1 = 3 * j + r" unfolding j_def r_def by (rule mult_div_mod_eq [symmetric])
  then have b: "b = 3 * j + r + 1" using assms by linarith
  have r: "r < 3" unfolding r_def by (rule mod_less_divisor) simp
  have j: "j \<le> 21" using b assms by linarith
  have "256 * j \<le> b * 84" using b j by linarith
  moreover have "b * 84 < 256 * Suc j" using b r by simp
  ultimately have "b * 84 div 256 = j" by (rule div_nat_eqI)
  then show ?thesis by (simp only: j_def)
qed

lemma b_range:
  assumes "7 \<le> b" "b \<le> 64"
  shows "1 \<le> b * 84 div 256 - 1 \<and> b * 84 div 256 - 1 \<le> 20 \<and>
    3 * (b * 84 div 256 - 1) + 4 \<le> b \<and> b \<le> 3 * (b * 84 div 256 - 1) + (6::nat)"
proof -
  define j where "j = (b - 1) div 3"
  define r where "r = (b - 1) mod 3"
  have "b - 1 = 3 * j + r" unfolding j_def r_def by (rule mult_div_mod_eq [symmetric])
  then have b: "b = 3 * j + r + 1" using assms by linarith
  have r: "r < 3" unfolding r_def by (rule mod_less_divisor) simp
  have k: "b * 84 div 256 = j" unfolding j_def using assms by (rule b_scaled)
  show ?thesis unfolding k using b r assms by linarith
qed

lemma v_len: "length cubic_root_v = 64"
  by (simp add: cubic_root_v_def)

lemma v_tail: "list_all (\<lambda>w. 123 \<le> unat w \<and> unat w \<le> 254) (drop 8 cubic_root_v)"
  by (simp add: cubic_root_v_def)

lemma v_bounds:
  assumes "8 \<le> i" "i < 64"
  shows "123 \<le> unat (cubic_root_v ! i) \<and> unat (cubic_root_v ! i) \<le> 254"
proof -
  have "cubic_root_v ! i = drop 8 cubic_root_v ! (i - 8)" using assms by (simp add: v_len)
  moreover have "i - 8 < length (drop 8 cubic_root_v)" using assms by (simp add: v_len)
  ultimately show ?thesis using v_tail by (simp add: list_all_length)
qed


lemma cubic_root_x0_eq:
  assumes "7 \<le> fls64 a"
  defines "b' \<equiv> fls64 a * 84 div 256 - 1"
  defines "s \<equiv> unat a div 2 ^ (3 * b')"
  shows "8 \<le> s \<and> s < 64 \<and> 1 \<le> b' \<and> b' \<le> 20 \<and>
    (\<exists>x. cubic_root_x0 a = Some x \<and> unat x = (unat (cubic_root_v ! s) + 10) * 2 ^ b' div 64)"
proof -
  define b where "b = fls64 a"
  have b7: "7 \<le> b" and b64: "b \<le> 64" using assms(1) fls64_le [of a] by (simp_all add: b_def)
  have b'1: "1 \<le> b'" and b'20: "b' \<le> 20" and lo: "3 * b' + 4 \<le> b" and hi: "b \<le> 3 * b' + 6"
    using b_range [OF b7 b64] by (simp_all add: b'_def b_def)
  define B :: u32 where "B = drop_bit 8 (of_nat b * 84) - 1"
  have B: "unat B = b'" unfolding B_def b'_def b_def [symmetric] using b7 b64 by (rule b_step)
  have "unat B * unat (3 :: u32) < 2 ^ LENGTH(32)" using b'20 by (simp add: B)
  then have B3: "unat (B * 3) = 3 * b'" by (simp add: unat_mult_lem [THEN iffD1] B)
  have npos: "0 < unat a"
  proof (rule ccontr)
    assume "\<not> 0 < unat a"
    then have "fls64 a = 0" by (simp add: fls64_def fls_nat.simps)
    with assms(1) show False by simp
  qed
  from fls_nat_bounds [OF npos] have n: "2 ^ (b - 1) \<le> unat a" "unat a < 2 ^ b"
    by (simp_all add: b_def fls64_def)
  have "(2::nat) ^ (3 * b' + 3) \<le> 2 ^ (b - 1)" using lo by (intro power_increasing) simp_all
  with n(1) have "8 * 2 ^ (3 * b') \<le> unat a" by (simp add: power_add)
  then have s8: "8 \<le> s" unfolding s_def by (simp add: less_eq_div_iff_mult_less_eq)
  have "(2::nat) ^ b \<le> 2 ^ (3 * b' + 6)" using hi by (intro power_increasing) simp_all
  with n(2) have "unat a < 64 * 2 ^ (3 * b')" by (simp add: power_add)
  then have s64: "s < 64" unfolding s_def by (simp add: div_less_iff_less_mult)
  define sh :: u32 where "sh = ucast (drop_bit (3 * b') a)"
  have "unat (drop_bit (3 * b') a) = s" by (simp add: unat_drop_bit_div s_def)
  then have sh: "unat sh = s" using s64 by (simp add: sh_def unat_ucast_64_32)
  define w :: u32 where "w = ucast (cubic_root_v ! s) + 10"
  have vb: "123 \<le> unat (cubic_root_v ! s)" "unat (cubic_root_v ! s) \<le> 254"
    using v_bounds [OF s8 s64] by simp_all
  have "unat (ucast (cubic_root_v ! s) :: u32) + unat (10 :: u32) < 2 ^ LENGTH(32)"
    using vb by (simp add: unat_ucast_8_32)
  then have w: "unat w = unat (cubic_root_v ! s) + 10"
    by (simp add: w_def unat_add_lem [THEN iffD1] unat_ucast_8_32)
  have "(2::nat) ^ b' \<le> 2 ^ 20" using b'20 by (intro power_increasing) simp_all
  then have "unat w * 2 ^ b' \<le> 264 * 2 ^ 20" using vb w by (intro mult_mono) simp_all
  then have "unat w * 2 ^ b' < 2 ^ LENGTH(32)" by simp
  then have "unat (push_bit b' w) = unat w * 2 ^ b'" by (rule unat_push_bit_exact)
  then have x: "unat (drop_bit 6 (push_bit b' w)) = (unat (cubic_root_v ! s) + 10) * 2 ^ b' div 64"
    by (simp add: unat_drop_bit_div w)
  have "cubic_root_x0 a = Some (drop_bit 6 (push_bit b' w))"
    unfolding cubic_root_x0_def Let_def b_def [symmetric] B_def [symmetric] B3 B
      sh_def [symmetric] sh w_def [symmetric] v_len
    using b'20 s64 by simp
  with x s8 s64 b'1 b'20 show ?thesis by blast
qed


lemma cubic_root_x0_ge:
  assumes "7 \<le> fls64 a"
  shows "\<exists>x. cubic_root_x0 a = Some x \<and> 4 \<le> unat x"
proof -
  define b' where "b' = fls64 a * 84 div 256 - 1"
  define s where "s = unat a div 2 ^ (3 * b')"
  from cubic_root_x0_eq [OF assms, folded b'_def, folded s_def]
  obtain x where s: "8 \<le> s" "s < 64" and b': "1 \<le> b'"
    and x: "cubic_root_x0 a = Some x" "unat x = (unat (cubic_root_v ! s) + 10) * 2 ^ b' div 64"
    by blast
  have "123 \<le> unat (cubic_root_v ! s)" using v_bounds [OF s] by simp
  moreover have "(2::nat) ^ 1 \<le> 2 ^ b'" using b' by (intro power_increasing) simp_all
  ultimately have "133 * 2 \<le> (unat (cubic_root_v ! s) + 10) * 2 ^ b'"
    by (intro mult_mono) simp_all
  then have "4 \<le> (unat (cubic_root_v ! s) + 10) * 2 ^ b' div 64"
    by (simp add: less_eq_div_iff_mult_less_eq)
  with x show ?thesis by auto
qed

lemma newton_divisor:
  fixes x :: u32
  assumes "2 \<le> unat x"
  shows "unat ((ucast x :: u64) * ucast (x - 1)) = unat x * (unat x - 1)"
    and "(ucast x :: u64) * ucast (x - 1) \<noteq> 0"
proof -
  have x0: "x \<noteq> 0" using assms by auto
  have x1: "unat (x - 1) = unat x - 1" using x0 by (rule unat_minus_one)
  have lt: "unat x < 2 ^ 32" using unsigned_less [of x] by simp
  have "unat x * (unat x - 1) < 2 ^ 32 * 2 ^ 32"
    using lt assms by (intro mult_strict_mono) simp_all
  then have "unat (ucast x :: u64) * unat (ucast (x - 1) :: u64) < 2 ^ LENGTH(64)"
    by (simp add: unat_ucast_32_64 x1)
  then show eq: "unat ((ucast x :: u64) * ucast (x - 1)) = unat x * (unat x - 1)"
    by (simp add: unat_mult_lem [THEN iffD1] unat_ucast_32_64 x1)
  have "0 < unat x * (unat x - 1)" using assms by simp
  with eq show "(ucast x :: u64) * ucast (x - 1) \<noteq> 0"
    by (metis less_not_refl unat_0_iff)
qed

lemma fls64_small: 
  assumes "fls64 a < 7"
  shows "unat a < 64"
proof (cases "unat a = 0")
  case True then show ?thesis by simp
next
  case False
  then have "unat a < 2 ^ fls64 a" using fls_nat_bounds [of "unat a"] by (simp add: fls64_def)
  also have "\<dots> \<le> 2 ^ 6" using assms by (intro power_increasing) simp_all
  finally show ?thesis by simp
qed

text \<open>
  Claim C10. For every 64-bit input with at least 7 significant bits, the initial estimate
  \<open>x\<close> of \<open>cubic_root\<close> is at least 2, so the divisor \<open>x * (x - 1)\<close> of the Newton-Raphson
  step is not zero; and \<open>cubic_root\<close> returns a value on every input: no table read is out
  of range, no shift is too wide and no division is by zero.
\<close>

theorem cubic_root_no_division_by_zero:
  "(7 \<le> fls64 a \<longrightarrow>
      (\<exists>x. cubic_root_x0 a = Some x \<and> 2 \<le> x \<and> (ucast x :: u64) * ucast (x - 1) \<noteq> 0)) \<and>
   (\<exists>y. cubic_root a = Some y)"
proof (cases "7 \<le> fls64 a")
  case True
  from cubic_root_x0_ge [OF True] obtain x where x: "cubic_root_x0 a = Some x" "4 \<le> unat x"
    by blast
  then have x2: "2 \<le> unat x" by simp
  then have "2 \<le> x" by (simp add: word_le_nat_alt)
  moreover note d = newton_divisor(2) [OF x2]
  moreover have "\<exists>y. cubic_root a = Some y"
    using True x(1) d by (simp add: cubic_root_def cubic_root_newton_def Let_def)
  ultimately show ?thesis using x(1) by blast
next
  case False
  then have "unat a < 64" using fls64_small [of a] by simp
  then have "unat (ucast a :: u32) < length cubic_root_v"
    by (simp add: unat_ucast_64_32 v_len)
  then have "\<exists>y. cubic_root a = Some y"
    using False by (simp add: cubic_root_def cubic_root_small_def Let_def)
  with False show ?thesis by simp
qed

text \<open>The input 1000 has 10 significant bits.\<close>

theorem cubic_root_no_division_by_zero_witness:
  "7 \<le> fls64 1000 \<and>
   (\<exists>x. cubic_root_x0 1000 = Some x \<and> 2 \<le> x \<and> (ucast x :: u64) * ucast (x - 1) \<noteq> 0) \<and>
   (\<exists>y. cubic_root 1000 = Some y)"
proof -
  have "7 \<le> fls64 1000" by (simp add: fls64_def fls_nat.simps)
  with cubic_root_no_division_by_zero [of 1000] show ?thesis by blast
qed

section \<open>Suspend and resume\<close>

text \<open>
  Claim C1, as amended. In \<open>tcp_leo_cubic.c\<close>, suspending a connection whose window is
  \<open>w \<ge> 1\<close> and resuming it restores the window \<open>w\<close>, by the two functions alone and under
  the guards of \<open>leo_handover_start\<close> and \<open>leo_handover_end\<close>; resuming is a no-op when the
  window is not 0 and sets it to \<open>max(1, last_cwnd)\<close> otherwise, which is at least 1. In
  \<open>tcp_leo.c\<close> suspending saves nothing: resuming sets the window to \<open>max(1, v)\<close> for the
  value \<open>v\<close> that the caller's \<open>last_snd_cwnd\<close> holds, so that the window \<open>w\<close> is restored
  exactly when \<open>max(1, v) = w\<close>; it too is a no-op when the window is not 0, and the window
  it sets is at least 1.
\<close>

theorem suspend_resume_window:
  "(1 \<le> snd_cwnd sk \<longrightarrow>
      snd_cwnd (leo_resume_transmission_cubic (leo_suspend_transmission_cubic sk)) = snd_cwnd sk \<and>
      snd_cwnd (leo_handover_end_cubic (leo_handover_start_cubic sk)) = snd_cwnd sk) \<and>
   (snd_cwnd sk \<noteq> 0 \<longrightarrow> leo_handover_end_cubic sk = sk) \<and>
   (snd_cwnd sk = 0 \<longrightarrow>
      snd_cwnd (leo_handover_end_cubic sk) = max 1 (last_cwnd (icsk_ca sk)) \<and>
      1 \<le> snd_cwnd (leo_handover_end_cubic sk)) \<and>
   (1 \<le> snd_cwnd sk' \<longrightarrow>
      snd_cwnd (leo_resume_transmission (leo_suspend_transmission k lp sk') v) = max 1 v \<and>
      snd_cwnd (leo_handover_end (leo_handover_start k lp sk') v) = max 1 v \<and>
      ((snd_cwnd (leo_resume_transmission (leo_suspend_transmission k lp sk') v) = snd_cwnd sk')
         = (max 1 v = snd_cwnd sk')) \<and>
      ((snd_cwnd (leo_handover_end (leo_handover_start k lp sk') v) = snd_cwnd sk')
         = (max 1 v = snd_cwnd sk'))) \<and>
   (snd_cwnd sk' \<noteq> 0 \<longrightarrow> leo_handover_end sk' v = sk') \<and>
   (snd_cwnd sk' = 0 \<longrightarrow>
      snd_cwnd (leo_handover_end sk' v) = max 1 v \<and> 1 \<le> snd_cwnd (leo_handover_end sk' v))"
proof -
  have a0: "snd_cwnd (leo_resume_transmission_cubic (leo_suspend_transmission_cubic sk)) = snd_cwnd sk"
    if "1 \<le> snd_cwnd sk"
    using max_one_id [OF that]
    by (simp add: leo_suspend_transmission_cubic_def leo_resume_transmission_cubic_def)
  have a: "snd_cwnd (leo_handover_end_cubic (leo_handover_start_cubic sk)) = snd_cwnd sk"
    if "1 \<le> snd_cwnd sk"
    using that word_ge_one_neq_zero [OF that] max_one_id [OF that]
    by (simp add: leo_handover_end_cubic_def leo_handover_start_cubic_def
        leo_suspend_transmission_cubic_def leo_resume_transmission_cubic_def Let_def)
  have b: "leo_handover_end_cubic sk = sk" if "snd_cwnd sk \<noteq> 0"
    using that by (simp add: leo_handover_end_cubic_def)
  have c: "snd_cwnd (leo_handover_end_cubic sk) = max 1 (last_cwnd (icsk_ca sk))"
    if "snd_cwnd sk = 0"
    using that by (simp add: leo_handover_end_cubic_def leo_resume_transmission_cubic_def Let_def)
  have d0: "snd_cwnd (leo_resume_transmission (leo_suspend_transmission k lp sk') v) = max 1 v"
    by (simp add: leo_suspend_transmission_def leo_resume_transmission_def Let_def)
  have d: "snd_cwnd (leo_handover_end (leo_handover_start k lp sk') v) = max 1 v"
    if "1 \<le> snd_cwnd sk'"
    using word_ge_one_neq_zero [OF that]
    by (simp add: leo_handover_end_def leo_handover_start_def leo_suspend_transmission_def
        leo_resume_transmission_def Let_def)
  have e: "leo_handover_end sk' v = sk'" if "snd_cwnd sk' \<noteq> 0"
    using that by (simp add: leo_handover_end_def)
  have f: "snd_cwnd (leo_handover_end sk' v) = max 1 v" if "snd_cwnd sk' = 0"
    using that by (simp add: leo_handover_end_def leo_resume_transmission_def Let_def)
  have g: "1 \<le> snd_cwnd (leo_handover_end_cubic sk)" if "snd_cwnd sk = 0"
    using c [OF that] max_one_word [of "last_cwnd (icsk_ca sk)"] by simp
  have h: "1 \<le> snd_cwnd (leo_handover_end sk' v)" if "snd_cwnd sk' = 0"
    using f [OF that] max_one_word [of v] by simp
  from a0 a b c g e f h show ?thesis by (simp add: d0 d)
qed

text \<open>
  The theorem at a window of 40 and at a window of 0, in both sources, with 40 and then
  0 as the caller's value in \<open>tcp_leo.c\<close>; and at a window of 1 with 0 as the caller's
  value, which restores the window 1.
\<close>

theorem suspend_resume_window_witness:
  "1 \<le> snd_cwnd (example_cubic_sock 40 0 zero_bictcp) \<and>
   snd_cwnd (leo_resume_transmission_cubic (leo_suspend_transmission_cubic
     (example_cubic_sock 40 0 zero_bictcp))) = 40 \<and>
   snd_cwnd (leo_handover_end_cubic (leo_handover_start_cubic
     (example_cubic_sock 40 0 zero_bictcp))) = 40 \<and>
   leo_handover_end_cubic (example_cubic_sock 40 0 zero_bictcp) =
     example_cubic_sock 40 0 zero_bictcp \<and>
   snd_cwnd (example_cubic_sock 0 0 zero_bictcp) = 0 \<and>
   snd_cwnd (leo_handover_end_cubic (example_cubic_sock 0 0 zero_bictcp)) = 1 \<and>
   snd_cwnd (leo_resume_transmission
     (leo_suspend_transmission kernel_hz1000 initial_leo_params (example_sock 40 0)) 40) = 40 \<and>
   snd_cwnd (leo_handover_end
     (leo_handover_start kernel_hz1000 initial_leo_params (example_sock 40 0)) 40) = 40 \<and>
   leo_handover_end (example_sock 40 0) 40 = example_sock 40 0 \<and>
   snd_cwnd (leo_handover_end (example_sock 0 0) 0) = 1 \<and>
   snd_cwnd (example_sock 1 0) = 1 \<and>
   snd_cwnd (leo_handover_end
     (leo_handover_start kernel_hz1000 initial_leo_params (example_sock 1 0)) 0) = 1"
  using suspend_resume_window [of "example_cubic_sock 40 0 zero_bictcp" "example_sock 40 0"
      kernel_hz1000 initial_leo_params 40]
    suspend_resume_window [of "example_cubic_sock 0 0 zero_bictcp" "example_sock 0 0"
      kernel_hz1000 initial_leo_params 0]
    suspend_resume_window [of "example_cubic_sock 40 0 zero_bictcp" "example_sock 1 0"
      kernel_hz1000 initial_leo_params 0]
  by (simp add: example_cubic_sock_def example_sock_def zero_bictcp_def)

text \<open>
  Claim C1 as it is written fails in \<open>tcp_leo.c\<close>: with a window of 40 and 10 in the
  caller's \<open>last_snd_cwnd\<close>, suspending and resuming leaves a window of 10.
\<close>

theorem suspend_resume_window_counterexample:
  "snd_cwnd (example_sock 40 0) = 40 \<and>
   snd_cwnd (leo_handover_end
     (leo_handover_start kernel_hz1000 initial_leo_params (example_sock 40 0)) 10) = 10"
  by (simp add: example_sock_def leo_handover_end_def leo_handover_start_def
      leo_suspend_transmission_def leo_resume_transmission_def Let_def)

text \<open>
  Claim C6. Suspending twice in a row is suspending once: after the first call the window
  is 0, and \<open>leo_handover_start\<close> returns at once on a window of 0, in both sources. The
  states are equal in every field, the saved window among them.
\<close>

theorem suspend_twice:
  "leo_handover_start_cubic (leo_handover_start_cubic sk) = leo_handover_start_cubic sk \<and>
   snd_cwnd (leo_handover_start_cubic sk) = 0 \<and>
   leo_handover_start k lp (leo_handover_start k lp sk') = leo_handover_start k lp sk' \<and>
   snd_cwnd (leo_handover_start k lp sk') = 0"
  by (simp add: leo_handover_start_cubic_def leo_suspend_transmission_cubic_def
      leo_handover_start_def leo_suspend_transmission_def Let_def)

text \<open>
  Claim C2, as amended. \<open>leo_suspend_transmission\<close> of \<open>tcp_leo.c\<close> sets the window to 0
  and adds \<open>msecs_to_jiffies(leo_handover_start_ms + leo_handover_end_ms)\<close>, the sum of the
  two parameters as they are configured, to a pending retransmission deadline; a
  connection with no pending deadline keeps none; it saves no window, and the timer
  callback leaves the caller's \<open>last_snd_cwnd\<close> as it is. \<open>leo_suspend_transmission\<close> of
  \<open>tcp_leo_cubic.c\<close> saves the window in \<open>last_cwnd\<close> and sets it to 0, and leaves the
  retransmission deadline as it is.
\<close>

theorem suspend_effects:
  "snd_cwnd (leo_suspend_transmission k lp sk') = 0 \<and>
   (icsk_timeout sk' \<noteq> 0 \<longrightarrow>
      icsk_timeout (leo_suspend_transmission k lp sk') =
        icsk_timeout sk' + msecs_to_jiffies k (leo_handover_start_ms lp + leo_handover_end_ms lp)) \<and>
   (icsk_timeout sk' = 0 \<longrightarrow> icsk_timeout (leo_suspend_transmission k lp sk') = 0) \<and>
   last_snd_cwnd_cell (leo_handover k lp base j leo) = last_snd_cwnd_cell leo \<and>
   snd_cwnd (leo_suspend_transmission_cubic sk) = 0 \<and>
   last_cwnd (icsk_ca (leo_suspend_transmission_cubic sk)) = snd_cwnd sk \<and>
   icsk_timeout (leo_suspend_transmission_cubic sk) = icsk_timeout sk"
  by (simp add: leo_suspend_transmission_def leo_handover_duration_def ucast_scast_32_64
      leo_handover_def leo_suspend_transmission_cubic_def Let_def)

text \<open>
  With the initial offsets of 200 ms each and a tick of a millisecond, a deadline of 5000
  becomes 5400, and no deadline stays none.
\<close>

theorem suspend_effects_witness:
  "icsk_timeout (example_sock 40 5000) \<noteq> 0 \<and>
   icsk_timeout (leo_suspend_transmission kernel_hz1000 initial_leo_params (example_sock 40 5000))
     = 5400 \<and>
   icsk_timeout (example_sock 40 0) = 0 \<and>
   icsk_timeout (leo_suspend_transmission kernel_hz1000 initial_leo_params (example_sock 40 0))
     = 0"
  using suspend_effects [of kernel_hz1000 initial_leo_params "example_sock 40 5000"]
    suspend_effects [of kernel_hz1000 initial_leo_params "example_sock 40 0"]
  by (simp add: example_sock_def kernel_hz1000_def initial_leo_params_def
      LEO_HANDOVER_OFFSET_DEFAULT_def)

text \<open>
  Claim C2 as it is written fails in both sources. In \<open>tcp_leo_cubic.c\<close> a deadline of 5000
  stays 5000, where 400 ticks were to be added. In \<open>tcp_leo.c\<close> the timer callback, fired
  at second 12 of the minute, suspends a connection of window 40 and leaves 10 in the
  caller's \<open>last_snd_cwnd\<close>.
\<close>

theorem suspend_effects_counterexample:
  "icsk_timeout (example_cubic_sock 40 5000 zero_bictcp) = 5000 \<and>
   msecs_to_jiffies kernel_hz1000 (ucast (leo_handover_duration initial_leo_params)) = 400 \<and>
   icsk_timeout (leo_suspend_transmission_cubic (example_cubic_sock 40 5000 zero_bictcp)) = 5000 \<and>
   snd_cwnd (leo_sock (leo_handover kernel_hz1000 initial_leo_params 0 12000
      \<lparr>leo_sock = example_sock 40 5000, last_snd_cwnd_cell = 10\<rparr>)) = 0 \<and>
   last_snd_cwnd_cell (leo_handover kernel_hz1000 initial_leo_params 0 12000
      \<lparr>leo_sock = example_sock 40 5000, last_snd_cwnd_cell = 10\<rparr>) = 10"
  by (simp add: example_cubic_sock_def example_sock_def zero_bictcp_def kernel_hz1000_def
      leo_suspend_transmission_cubic_def leo_handover_def leo_handover_start_def
      leo_suspend_transmission_def leo_handover_end_def leo_resume_transmission_def
      leo_handover_duration_def initial_leo_params_def LEO_HANDOVER_OFFSET_DEFAULT_def
      leo_jiffies_def LEO_HANDOVER_INTERVAL_def LEO_HANDOVER_END_def LEO_HANDOVER_START_def
      LEO_HANDOVER_TIME_def LEO_HANDOVER_TIME_JITTER_def LEO_HANDOVER_OFFSET_END_def
      LEO_HANDOVER_OFFSET_START_def LEO_HANDOVER_OFFSET_def LEO_HANDOVER_OFFSET_MAX_def
      NSEC_PER_SEC_def NSEC_PER_MSEC_def NSEC_PER_MIN_def SEC_PER_MIN_def Let_def)

section \<open>The handover offsets\<close>

lemma handover_offset_value:
  "LEO_HANDOVER_OFFSET v \<le> 1000 \<and>
   (0 \<le> sint v \<and> sint v \<le> 1000 \<longrightarrow> uint (LEO_HANDOVER_OFFSET v) = sint v) \<and>
   (sint v < 0 \<or> 1000 < sint v \<longrightarrow> LEO_HANDOVER_OFFSET v = 1000) \<and>
   STARLINK_HANDOVER_OFFSET v = LEO_HANDOVER_OFFSET v"
proof -
  have le: "LEO_HANDOVER_OFFSET v \<le> 1000"
    by (simp add: LEO_HANDOVER_OFFSET_def LEO_HANDOVER_OFFSET_MAX_def)
  have u: "uint (scast v :: u64) = sint v mod 2 ^ 64" by (rule uint_scast_32_64)
  have inr: "uint (LEO_HANDOVER_OFFSET v) = sint v" if "0 \<le> sint v" "sint v \<le> 1000"
  proof -
    have "uint (scast v :: u64) = sint v" using that by (simp add: u)
    then have "(scast v :: u64) \<le> 1000" using that by (simp add: word_le_def)
    then show ?thesis
      using \<open>uint (scast v :: u64) = sint v\<close>
      by (simp add: LEO_HANDOVER_OFFSET_def LEO_HANDOVER_OFFSET_MAX_def)
  qed
  have outr: "LEO_HANDOVER_OFFSET v = 1000" if "sint v < 0 \<or> 1000 < sint v"
  proof -
    have "1000 < uint (scast v :: u64)"
    proof (cases "sint v < 0")
      case True
      have "sint v mod 2 ^ 64 = sint v + 2 ^ 64"
        using True sint_bounds_32 [of v] by (intro mod_pos_pos_trivial [THEN trans [OF mod_add_self2 [symmetric]]]) simp_all
      then show ?thesis using True sint_bounds_32 [of v] by (simp add: u)
    next
      case False
      with that have "1000 < sint v" by simp
      moreover have "sint v mod 2 ^ 64 = sint v"
        using False sint_bounds_32 [of v] by (intro mod_pos_pos_trivial) simp_all
      ultimately show ?thesis by (simp add: u)
    qed
    then have "\<not> (scast v :: u64) \<le> 1000" by (simp add: word_le_def)
    then show ?thesis by (simp add: LEO_HANDOVER_OFFSET_def LEO_HANDOVER_OFFSET_MAX_def)
  qed
  have same: "STARLINK_HANDOVER_OFFSET v = LEO_HANDOVER_OFFSET v"
    by (simp add: STARLINK_HANDOVER_OFFSET_def LEO_HANDOVER_OFFSET_def
        STARLINK_HANDOVER_OFFSET_MAX_def LEO_HANDOVER_OFFSET_MAX_def)
  from le inr outr same show ?thesis by blast
qed

text \<open>
  Claim C9, as amended. For every configuration, in both sources, the effective start
  and end offsets are at most 1000 (and, being unsigned, at least 0); each is the
  configured value when that lies between 0 and 1000, and 1000 for every other value,
  the negative ones included: the macro compares after the cast to \<open>u64\<close>, under which a
  negative \<open>int\<close> is above 1000. The offsets are 200 initially, and the bounds of the
  handover window are 12 s minus the start offset and 12 s plus the end offset, in ticks
  scaled by \<open>10\<^sup>9\<close>.
\<close>

theorem handover_offset_clamped:
  "LEO_HANDOVER_OFFSET_START lp \<le> 1000 \<and> LEO_HANDOVER_OFFSET_END lp \<le> 1000 \<and>
   STARLINK_HANDOVER_OFFSET_START p \<le> 1000 \<and> STARLINK_HANDOVER_OFFSET_END p \<le> 1000 \<and>
   (0 \<le> sint (leo_handover_start_ms lp) \<and> sint (leo_handover_start_ms lp) \<le> 1000 \<longrightarrow>
      uint (LEO_HANDOVER_OFFSET_START lp) = sint (leo_handover_start_ms lp)) \<and>
   (sint (leo_handover_start_ms lp) < 0 \<or> 1000 < sint (leo_handover_start_ms lp) \<longrightarrow>
      LEO_HANDOVER_OFFSET_START lp = 1000) \<and>
   (0 \<le> sint (leo_handover_end_ms lp) \<and> sint (leo_handover_end_ms lp) \<le> 1000 \<longrightarrow>
      uint (LEO_HANDOVER_OFFSET_END lp) = sint (leo_handover_end_ms lp)) \<and>
   (sint (leo_handover_end_ms lp) < 0 \<or> 1000 < sint (leo_handover_end_ms lp) \<longrightarrow>
      LEO_HANDOVER_OFFSET_END lp = 1000) \<and>
   (0 \<le> sint (starlink_handover_start_ms p) \<and> sint (starlink_handover_start_ms p) \<le> 1000 \<longrightarrow>
      uint (STARLINK_HANDOVER_OFFSET_START p) = sint (starlink_handover_start_ms p)) \<and>
   (sint (starlink_handover_start_ms p) < 0 \<or> 1000 < sint (starlink_handover_start_ms p) \<longrightarrow>
      STARLINK_HANDOVER_OFFSET_START p = 1000) \<and>
   (0 \<le> sint (starlink_handover_end_ms p) \<and> sint (starlink_handover_end_ms p) \<le> 1000 \<longrightarrow>
      uint (STARLINK_HANDOVER_OFFSET_END p) = sint (starlink_handover_end_ms p)) \<and>
   (sint (starlink_handover_end_ms p) < 0 \<or> 1000 < sint (starlink_handover_end_ms p) \<longrightarrow>
      STARLINK_HANDOVER_OFFSET_END p = 1000) \<and>
   LEO_HANDOVER_OFFSET_START initial_leo_params = 200 \<and>
   LEO_HANDOVER_OFFSET_END initial_leo_params = 200 \<and>
   STARLINK_HANDOVER_OFFSET_START initial_params = 200 \<and>
   STARLINK_HANDOVER_OFFSET_END initial_params = 200 \<and>
   LEO_HANDOVER_START k lp =
     12 * NSEC_PER_SEC * of_nat (HZ k) - LEO_HANDOVER_OFFSET_START lp * NSEC_PER_MSEC * of_nat (HZ k) \<and>
   LEO_HANDOVER_END k lp =
     12 * NSEC_PER_SEC * of_nat (HZ k) + LEO_HANDOVER_OFFSET_END lp * NSEC_PER_MSEC * of_nat (HZ k)"
proof -
  note ls = handover_offset_value [of "leo_handover_start_ms lp"]
  note le = handover_offset_value [of "leo_handover_end_ms lp"]
  note ss = handover_offset_value [of "starlink_handover_start_ms p"]
  note se = handover_offset_value [of "starlink_handover_end_ms p"]
  have d1: "LEO_HANDOVER_OFFSET_START initial_leo_params = 200"
    by (simp add: LEO_HANDOVER_OFFSET_START_def initial_leo_params_def LEO_HANDOVER_OFFSET_def
        LEO_HANDOVER_OFFSET_DEFAULT_def LEO_HANDOVER_OFFSET_MAX_def)
  have d2: "LEO_HANDOVER_OFFSET_END initial_leo_params = 200"
    by (simp add: LEO_HANDOVER_OFFSET_END_def initial_leo_params_def LEO_HANDOVER_OFFSET_def
        LEO_HANDOVER_OFFSET_DEFAULT_def LEO_HANDOVER_OFFSET_MAX_def)
  have d3: "STARLINK_HANDOVER_OFFSET_START initial_params = 200"
    by (simp add: STARLINK_HANDOVER_OFFSET_START_def initial_params_def
        STARLINK_HANDOVER_OFFSET_def STARLINK_HANDOVER_OFFSET_MAX_def)
  have d4: "STARLINK_HANDOVER_OFFSET_END initial_params = 200"
    by (simp add: STARLINK_HANDOVER_OFFSET_END_def initial_params_def
        STARLINK_HANDOVER_OFFSET_def STARLINK_HANDOVER_OFFSET_MAX_def)
  have w1: "LEO_HANDOVER_START k lp =
     12 * NSEC_PER_SEC * of_nat (HZ k) - LEO_HANDOVER_OFFSET_START lp * NSEC_PER_MSEC * of_nat (HZ k)"
    by (simp add: LEO_HANDOVER_START_def LEO_HANDOVER_TIME_def)
  have w2: "LEO_HANDOVER_END k lp =
     12 * NSEC_PER_SEC * of_nat (HZ k) + LEO_HANDOVER_OFFSET_END lp * NSEC_PER_MSEC * of_nat (HZ k)"
    by (simp add: LEO_HANDOVER_END_def LEO_HANDOVER_TIME_def)
  from ls le ss se d1 d2 d3 d4 w1 w2 show ?thesis
    unfolding LEO_HANDOVER_OFFSET_START_def LEO_HANDOVER_OFFSET_END_def
      STARLINK_HANDOVER_OFFSET_START_def STARLINK_HANDOVER_OFFSET_END_def
    by simp
qed

text \<open>
  The configured values 350, -5, 1000 and 5000, then 5000, 0, -1 and 200.
\<close>

theorem handover_offset_clamped_witness:
  "uint (LEO_HANDOVER_OFFSET_START \<lparr>leo_handover_start_ms = 350, leo_handover_end_ms = - 5\<rparr>) = 350 \<and>
   LEO_HANDOVER_OFFSET_END \<lparr>leo_handover_start_ms = 350, leo_handover_end_ms = - 5\<rparr> = 1000 \<and>
   uint (STARLINK_HANDOVER_OFFSET_START
     (initial_params\<lparr>starlink_handover_start_ms := 1000, starlink_handover_end_ms := 5000\<rparr>))
     = 1000 \<and>
   STARLINK_HANDOVER_OFFSET_END
     (initial_params\<lparr>starlink_handover_start_ms := 1000, starlink_handover_end_ms := 5000\<rparr>)
     = 1000 \<and>
   LEO_HANDOVER_OFFSET_START \<lparr>leo_handover_start_ms = 5000, leo_handover_end_ms = 0\<rparr> = 1000 \<and>
   uint (LEO_HANDOVER_OFFSET_END \<lparr>leo_handover_start_ms = 5000, leo_handover_end_ms = 0\<rparr>) = 0 \<and>
   STARLINK_HANDOVER_OFFSET_START
     (initial_params\<lparr>starlink_handover_start_ms := - 1, starlink_handover_end_ms := 200\<rparr>)
     = 1000 \<and>
   uint (STARLINK_HANDOVER_OFFSET_END
     (initial_params\<lparr>starlink_handover_start_ms := - 1, starlink_handover_end_ms := 200\<rparr>))
     = 200"
  using handover_offset_clamped [of "\<lparr>leo_handover_start_ms = 350, leo_handover_end_ms = - 5\<rparr>"
      "initial_params\<lparr>starlink_handover_start_ms := 1000, starlink_handover_end_ms := 5000\<rparr>"
      kernel_hz1000]
    handover_offset_clamped [of "\<lparr>leo_handover_start_ms = 5000, leo_handover_end_ms = 0\<rparr>"
      "initial_params\<lparr>starlink_handover_start_ms := - 1, starlink_handover_end_ms := 200\<rparr>"
      kernel_hz1000]
  by simp

text \<open>
  Claim C9 as it is written fails at a negative value: clamping -5 to the range from 0
  to 1000 gives 0, and the effective offset is 1000, in both sources.
\<close>

theorem handover_offset_clamped_counterexample:
  "sint (leo_handover_start_ms \<lparr>leo_handover_start_ms = - 5, leo_handover_end_ms = 200\<rparr>) = - 5 \<and>
   spec_offset_clamp (- 5) = 0 \<and>
   uint (LEO_HANDOVER_OFFSET_START \<lparr>leo_handover_start_ms = - 5, leo_handover_end_ms = 200\<rparr>)
     = 1000 \<and>
   uint (STARLINK_HANDOVER_OFFSET_START (initial_params\<lparr>starlink_handover_start_ms := - 5\<rparr>))
     = 1000"
  by (simp add: spec_offset_clamp_def LEO_HANDOVER_OFFSET_START_def LEO_HANDOVER_OFFSET_def
      LEO_HANDOVER_OFFSET_MAX_def STARLINK_HANDOVER_OFFSET_START_def STARLINK_HANDOVER_OFFSET_def
      STARLINK_HANDOVER_OFFSET_MAX_def)

section \<open>The slow-start threshold after a loss\<close>

text \<open>
  Claim C5. \<open>cubictcp_recalc_ssthresh\<close> ends the epoch, sets \<open>last_max_cwnd\<close> to
  \<open>cwnd * (1024 + beta) / 2048\<close> under fast convergence when the window is below it (and to
  the window otherwise), and returns \<open>max(2, cwnd * beta / 1024)\<close>, in the \<open>u32\<close>
  arithmetic of the source; where \<open>cwnd * beta\<close> is below \<open>2^32\<close> that is the value over the
  natural numbers. The scenario of the claim (window 50, \<open>last_max_cwnd\<close> 80, \<open>beta\<close> 717)
  follows it.
\<close>

theorem recalc_ssthresh:
  "epoch_start (icsk_ca (fst (cubictcp_recalc_ssthresh p sk))) = 0 \<and>
   last_max_cwnd (icsk_ca (fst (cubictcp_recalc_ssthresh p sk))) =
     (if snd_cwnd sk < last_max_cwnd (icsk_ca sk) \<and> fast_convergence p \<noteq> 0
      then (snd_cwnd sk * (1024 + beta p)) div 2048 else snd_cwnd sk) \<and>
   snd (cubictcp_recalc_ssthresh p sk) = max 2 ((snd_cwnd sk * beta p) div 1024) \<and>
   (unat (snd_cwnd sk) * unat (beta p) < 2 ^ 32 \<longrightarrow>
      unat (snd (cubictcp_recalc_ssthresh p sk)) =
        max 2 (unat (snd_cwnd sk) * unat (beta p) div 1024))"
proof -
  have r: "snd (cubictcp_recalc_ssthresh p sk) = max 2 ((snd_cwnd sk * beta p) div 1024)"
    by (simp add: cubictcp_recalc_ssthresh_def Let_def BICTCP_BETA_SCALE_def max.commute)
  have n: "unat (max 2 ((snd_cwnd sk * beta p) div 1024)) =
      max 2 (unat (snd_cwnd sk) * unat (beta p) div 1024)"
    if "unat (snd_cwnd sk) * unat (beta p) < 2 ^ 32"
  proof -
    have "unat (snd_cwnd sk * beta p) = unat (snd_cwnd sk) * unat (beta p)"
      using that by (simp add: unat_mult_lem [THEN iffD1])
    then have "unat ((snd_cwnd sk * beta p) div 1024) = unat (snd_cwnd sk) * unat (beta p) div 1024"
      by (simp add: unat_div)
    then show ?thesis by (simp add: max_def word_le_nat_alt)
  qed
  show ?thesis
    using r n by (simp add: cubictcp_recalc_ssthresh_def Let_def BICTCP_BETA_SCALE_def)
qed

text \<open>
  The scenario: window 50, \<open>last_max_cwnd\<close> 80, an open epoch, the initial parameters. The
  epoch is closed, \<open>last_max_cwnd\<close> becomes 42 and the threshold returned is 35.
\<close>

theorem recalc_ssthresh_witness:
  "unat (snd_cwnd (example_cubic_sock 50 0 (zero_bictcp\<lparr>last_max_cwnd := 80, epoch_start := 7\<rparr>)))
     * unat (beta registered_params) < 2 ^ 32 \<and>
   epoch_start (icsk_ca (fst (cubictcp_recalc_ssthresh registered_params
     (example_cubic_sock 50 0 (zero_bictcp\<lparr>last_max_cwnd := 80, epoch_start := 7\<rparr>))))) = 0 \<and>
   last_max_cwnd (icsk_ca (fst (cubictcp_recalc_ssthresh registered_params
     (example_cubic_sock 50 0 (zero_bictcp\<lparr>last_max_cwnd := 80, epoch_start := 7\<rparr>))))) = 42 \<and>
   snd (cubictcp_recalc_ssthresh registered_params
     (example_cubic_sock 50 0 (zero_bictcp\<lparr>last_max_cwnd := 80, epoch_start := 7\<rparr>))) = 35 \<and>
   unat (snd (cubictcp_recalc_ssthresh registered_params
     (example_cubic_sock 50 0 (zero_bictcp\<lparr>last_max_cwnd := 80, epoch_start := 7\<rparr>)))) = 35"
  using recalc_ssthresh [of registered_params
      "example_cubic_sock 50 0 (zero_bictcp\<lparr>last_max_cwnd := 80, epoch_start := 7\<rparr>)"]
  by (simp add: registered_params_eq initial_params_def example_cubic_sock_def zero_bictcp_def)

section \<open>The increment counter after \<open>bictcp_update\<close>\<close>

text \<open>
  On every path of \<open>bictcp_update\<close> but its first return the result passes through
  \<open>ca->cnt = max(ca->cnt, 2U)\<close>; the first return leaves \<open>cnt\<close> as it was.
\<close>

lemma bictcp_update_friendliness_floor:
  "bictcp_update_friendliness p ca cwnd = Some ca' \<Longrightarrow> 2 \<le> cnt ca'"
  by (auto simp add: bictcp_update_friendliness_def Let_def split: if_splits option.splits prod.splits)

lemma bictcp_update_floor:
  assumes "bictcp_update k p now ca cwnd acked = Some ca'"
    and "last_cwnd ca \<noteq> cwnd \<or> int (HZ k) div 32 < sint (now - last_time ca)"
  shows "2 \<le> cnt ca'"
  using assms
  by (auto simp add: bictcp_update_def Let_def split: if_splits option.splits
      dest: bictcp_update_friendliness_floor)

lemma bictcp_update_early_return:
  assumes "last_cwnd ca = cwnd" "sint (now - last_time ca) \<le> int (HZ k) div 32"
  shows "bictcp_update k p now ca cwnd acked = Some (ca\<lparr>ack_cnt := ack_cnt ca + acked\<rparr>)"
  using assms by (simp add: bictcp_update_def Let_def)

text \<open>
  Claim C3 fails on a state the sources reach. \<open>bictcp_reset\<close> zeroes \<open>cnt\<close>, \<open>last_cwnd\<close>
  and \<open>last_time\<close>, and in slow start \<open>bictcp_update\<close> does not run. On such a connection, at
  window 20, \<open>cubictcp_acked\<close> finds the exit of slow start and sets the threshold to 20; a
  suspension then stores 20 in \<open>last_cwnd\<close>, which \<open>bictcp_update\<close> reads as the window of
  its last computation; after the resumption the window is 20 again, the connection is
  out of slow start, and \<open>bictcp_update(ca, 20, 1)\<close> at the tick \<open>0xFFFB7000\<close> (negative as
  an \<open>s32\<close>, as in the first five minutes after boot) takes its first return with
  \<open>cnt = 0\<close>.
\<close>

theorem bictcp_update_cnt_below_two:
  "cnt (icsk_ca slow_start_round_sock) = cnt (bictcp_reset zero_bictcp) \<and>
   last_cwnd (icsk_ca slow_start_round_sock) = last_cwnd (bictcp_reset zero_bictcp) \<and>
   last_time (icsk_ca slow_start_round_sock) = last_time (bictcp_reset zero_bictcp) \<and>
   tcp_in_slow_start slow_start_round_sock \<and>
   snd_cwnd handover_trace_sock = 20 \<and>
   snd_ssthresh handover_trace_sock = 20 \<and>
   \<not> tcp_in_slow_start handover_trace_sock \<and>
   map_option cnt (bictcp_update kernel_hz1000 registered_params 0xFFFB7000
      (icsk_ca handover_trace_sock) (snd_cwnd handover_trace_sock) 1) = Some 0"
  by (simp add: handover_trace_sock_def slow_start_round_sock_def
      registered_params_eq initial_params_def example_cubic_sock_def zero_bictcp_def
      bictcp_reset_def
      cubictcp_acked_def hystart_update_def hystart_delay_def hystart_ack_train_def
      bictcp_hystart_reset_def bictcp_clock_us_def after_def tcp_in_slow_start_def
      HYSTART_DELAY_def HYSTART_ACK_TRAIN_def HYSTART_MIN_SAMPLES_def HYSTART_DELAY_THRESH_def
      clamp_def HYSTART_DELAY_MIN_def HYSTART_DELAY_MAX_def hystart_ack_delay_def
      SK_PACING_NONE_def
      leo_handover_end_cubic_def leo_handover_start_cubic_def leo_suspend_transmission_cubic_def
      leo_resume_transmission_cubic_def bictcp_update_def kernel_hz1000_def Let_def)

section \<open>The delay detector of hybrid slow start\<close>

lemma hystart_ack_train_fields:
  "delay_min (icsk_ca (hystart_ack_train p sk)) = delay_min (icsk_ca sk) \<and>
   curr_rtt (icsk_ca (hystart_ack_train p sk)) = curr_rtt (icsk_ca sk) \<and>
   sample_cnt (icsk_ca (hystart_ack_train p sk)) = sample_cnt (icsk_ca sk) \<and>
   snd_cwnd (hystart_ack_train p sk) = snd_cwnd sk"
  by (simp add: hystart_ack_train_def Let_def)

lemma hystart_delay_fires:
  assumes "HYSTART_MIN_SAMPLES \<le> sample_cnt (icsk_ca sk)"
    and "delay_min (icsk_ca sk) + HYSTART_DELAY_THRESH (drop_bit 3 (delay_min (icsk_ca sk)))
           < min (curr_rtt (icsk_ca sk)) delay"
  shows "found (icsk_ca (hystart_delay sk delay)) = 1 \<and>
    snd_ssthresh (hystart_delay sk delay) = snd_cwnd sk"
  using assms by (auto simp add: hystart_delay_def Let_def min_def not_less split: if_splits)

lemma hystart_delay_quiet:
  assumes "HYSTART_MIN_SAMPLES \<le> sample_cnt (icsk_ca sk)"
    and "min (curr_rtt (icsk_ca sk)) delay
           \<le> delay_min (icsk_ca sk) + HYSTART_DELAY_THRESH (drop_bit 3 (delay_min (icsk_ca sk)))"
  shows "found (icsk_ca (hystart_delay sk delay)) = found (icsk_ca sk) \<and>
    snd_ssthresh (hystart_delay sk delay) = snd_ssthresh sk"
  using assms by (auto simp add: hystart_delay_def Let_def min_def not_less split: if_splits)

text \<open>
  Claim C4, as amended. With the delay detector enabled, within a round and after at
  least 8 samples, \<open>hystart_update\<close> compares the minimum of the round, the new sample
  included, with \<open>delay_min + clamp(delay_min / 8, 4000, 16000)\<close>: above it, the exit is
  marked found and the threshold is set to the window; at or below it, and with the
  ack-train detector off, neither changes. After samples of minimum 10000 a sample of
  19000 leaves the minimum at 10000, which is not above 14000; the exit is found when
  the minimum of the round is 19000.
\<close>

theorem hystart_delay_detector:
  assumes "hystart_detect p AND HYSTART_DELAY \<noteq> 0"
    and "\<not> after (snd_una sk) (end_seq (icsk_ca sk))"
    and "HYSTART_MIN_SAMPLES \<le> sample_cnt (icsk_ca sk)"
  shows "(delay_min (icsk_ca sk) + HYSTART_DELAY_THRESH (drop_bit 3 (delay_min (icsk_ca sk)))
            < min (curr_rtt (icsk_ca sk)) delay \<longrightarrow>
          found (icsk_ca (hystart_update p sk delay)) = 1 \<and>
          snd_ssthresh (hystart_update p sk delay) = snd_cwnd sk) \<and>
         (min (curr_rtt (icsk_ca sk)) delay
            \<le> delay_min (icsk_ca sk) + HYSTART_DELAY_THRESH (drop_bit 3 (delay_min (icsk_ca sk))) \<and>
          hystart_detect p AND HYSTART_ACK_TRAIN = 0 \<longrightarrow>
          found (icsk_ca (hystart_update p sk delay)) = found (icsk_ca sk) \<and>
          snd_ssthresh (hystart_update p sk delay) = snd_ssthresh sk)"
proof (intro conjI impI)
  assume fire: "delay_min (icsk_ca sk) + HYSTART_DELAY_THRESH (drop_bit 3 (delay_min (icsk_ca sk)))
            < min (curr_rtt (icsk_ca sk)) delay"
  define sk2 where
    "sk2 = (if hystart_detect p AND HYSTART_ACK_TRAIN = 0 then sk else hystart_ack_train p sk)"
  have f: "delay_min (icsk_ca sk2) = delay_min (icsk_ca sk)"
    "curr_rtt (icsk_ca sk2) = curr_rtt (icsk_ca sk)"
    "sample_cnt (icsk_ca sk2) = sample_cnt (icsk_ca sk)" "snd_cwnd sk2 = snd_cwnd sk"
    by (simp_all add: sk2_def hystart_ack_train_fields)
  have u: "hystart_update p sk delay = hystart_delay sk2 delay"
    using assms(1,2) by (simp add: hystart_update_def Let_def sk2_def)
  from hystart_delay_fires [of sk2 delay] assms(3) fire
  have "found (icsk_ca (hystart_delay sk2 delay)) = 1 \<and>
    snd_ssthresh (hystart_delay sk2 delay) = snd_cwnd sk2"
    by (simp add: f)
  then show "found (icsk_ca (hystart_update p sk delay)) = 1"
    and "snd_ssthresh (hystart_update p sk delay) = snd_cwnd sk"
    by (simp_all add: u f)
next
  assume quiet: "min (curr_rtt (icsk_ca sk)) delay
            \<le> delay_min (icsk_ca sk) + HYSTART_DELAY_THRESH (drop_bit 3 (delay_min (icsk_ca sk))) \<and>
          hystart_detect p AND HYSTART_ACK_TRAIN = 0"
  then have u: "hystart_update p sk delay = hystart_delay sk delay"
    using assms(1,2) by (simp add: hystart_update_def Let_def)
  from hystart_delay_quiet [of sk delay] assms(3) quiet
  show "found (icsk_ca (hystart_update p sk delay)) = found (icsk_ca sk)"
    and "snd_ssthresh (hystart_update p sk delay) = snd_ssthresh sk"
    by (simp_all add: u)
qed

text \<open>
  A round of 8 samples whose minimum is 19000, \<open>delay_min\<close> 10000, and a 9th sample of
  19000: the exit is found and the threshold is the window, 20. With the delay detector
  alone and a round whose minimum is 10000, the same sample changes neither.
\<close>

theorem hystart_delay_detector_witness:
  "hystart_detect registered_params AND HYSTART_DELAY \<noteq> 0 \<and>
   \<not> after (snd_una (example_cubic_sock 20 0
        (zero_bictcp\<lparr>delay_min := 10000, curr_rtt := 19000, sample_cnt := 8, end_seq := 1000\<rparr>)))
      (end_seq (icsk_ca (example_cubic_sock 20 0
        (zero_bictcp\<lparr>delay_min := 10000, curr_rtt := 19000, sample_cnt := 8, end_seq := 1000\<rparr>)))) \<and>
   HYSTART_MIN_SAMPLES \<le> sample_cnt (icsk_ca (example_cubic_sock 20 0
        (zero_bictcp\<lparr>delay_min := 10000, curr_rtt := 19000, sample_cnt := 8, end_seq := 1000\<rparr>))) \<and>
   (10000 :: u32) + HYSTART_DELAY_THRESH (drop_bit 3 10000) = 14000 \<and>
   (14000 :: u32) < min 19000 19000 \<and>
   found (icsk_ca (hystart_update registered_params (example_cubic_sock 20 0
        (zero_bictcp\<lparr>delay_min := 10000, curr_rtt := 19000, sample_cnt := 8, end_seq := 1000\<rparr>))
      19000)) = 1 \<and>
   snd_ssthresh (hystart_update registered_params (example_cubic_sock 20 0
        (zero_bictcp\<lparr>delay_min := 10000, curr_rtt := 19000, sample_cnt := 8, end_seq := 1000\<rparr>))
      19000) = 20 \<and>
   hystart_detect (registered_params\<lparr>hystart_detect := HYSTART_DELAY\<rparr>) AND HYSTART_DELAY \<noteq> 0 \<and>
   hystart_detect (registered_params\<lparr>hystart_detect := HYSTART_DELAY\<rparr>) AND HYSTART_ACK_TRAIN = 0 \<and>
   min 10000 19000 \<le> (14000 :: u32) \<and>
   found (icsk_ca (hystart_update (registered_params\<lparr>hystart_detect := HYSTART_DELAY\<rparr>)
      (example_cubic_sock 20 0
        (zero_bictcp\<lparr>delay_min := 10000, curr_rtt := 10000, sample_cnt := 8, end_seq := 1000\<rparr>))
      19000)) = 0 \<and>
   snd_ssthresh (hystart_update (registered_params\<lparr>hystart_detect := HYSTART_DELAY\<rparr>)
      (example_cubic_sock 20 0
        (zero_bictcp\<lparr>delay_min := 10000, curr_rtt := 10000, sample_cnt := 8, end_seq := 1000\<rparr>))
      19000) = 0x7fffffff"
proof -
  let ?sk = "example_cubic_sock 20 0
        (zero_bictcp\<lparr>delay_min := 10000, curr_rtt := 19000, sample_cnt := 8, end_seq := 1000\<rparr>)"
  let ?sq = "example_cubic_sock 20 0
        (zero_bictcp\<lparr>delay_min := 10000, curr_rtt := 10000, sample_cnt := 8, end_seq := 1000\<rparr>)"
  let ?pq = "registered_params\<lparr>hystart_detect := HYSTART_DELAY\<rparr>"
  have a: "hystart_detect registered_params AND HYSTART_DELAY \<noteq> 0"
    by (simp add: registered_params_eq initial_params_def HYSTART_DELAY_def HYSTART_ACK_TRAIN_def)
  have b: "\<not> after (snd_una ?sk) (end_seq (icsk_ca ?sk))"
    by (simp add: example_cubic_sock_def zero_bictcp_def after_def)
  have c: "HYSTART_MIN_SAMPLES \<le> sample_cnt (icsk_ca ?sk)"
    by (simp add: example_cubic_sock_def zero_bictcp_def HYSTART_MIN_SAMPLES_def)
  have d: "(10000 :: u32) + HYSTART_DELAY_THRESH (drop_bit 3 10000) = 14000"
    by (simp add: HYSTART_DELAY_THRESH_def clamp_def HYSTART_DELAY_MIN_def HYSTART_DELAY_MAX_def)
  have a': "hystart_detect ?pq AND HYSTART_DELAY \<noteq> 0"
    by (simp add: HYSTART_DELAY_def)
  have t': "hystart_detect ?pq AND HYSTART_ACK_TRAIN = 0"
    by (simp add: HYSTART_DELAY_def HYSTART_ACK_TRAIN_def)
  have b': "\<not> after (snd_una ?sq) (end_seq (icsk_ca ?sq))"
    by (simp add: example_cubic_sock_def zero_bictcp_def after_def)
  have c': "HYSTART_MIN_SAMPLES \<le> sample_cnt (icsk_ca ?sq)"
    by (simp add: example_cubic_sock_def zero_bictcp_def HYSTART_MIN_SAMPLES_def)
  from hystart_delay_detector [OF a b c, of 19000] d
  have fire: "found (icsk_ca (hystart_update registered_params ?sk 19000)) = 1 \<and>
    snd_ssthresh (hystart_update registered_params ?sk 19000) = 20"
    by (simp add: example_cubic_sock_def zero_bictcp_def)
  from hystart_delay_detector [OF a' b' c', of 19000] d t'
  have quiet: "found (icsk_ca (hystart_update ?pq ?sq 19000)) = 0 \<and>
    snd_ssthresh (hystart_update ?pq ?sq 19000) = 0x7fffffff"
    by (simp add: example_cubic_sock_def zero_bictcp_def)
  have m: "min 10000 19000 \<le> (14000 :: u32)" by simp
  from a b c d fire a' t' m quiet show ?thesis by simp
qed

text \<open>
  Claim C4 as it is written fails: after 8 samples of minimum 10000, with \<open>delay_min\<close>
  10000, the sample 19000 leaves \<open>found\<close> at 0 and the threshold as it was, through
  \<open>cubictcp_acked\<close> and through \<open>hystart_update\<close>, with both detectors enabled.
\<close>

theorem hystart_delay_detector_counterexample:
  "sample_cnt (icsk_ca (example_cubic_sock 20 0
        (zero_bictcp\<lparr>delay_min := 10000, curr_rtt := 10000, sample_cnt := 8, end_seq := 1000\<rparr>))) = 8 \<and>
   found (icsk_ca (cubictcp_acked kernel_hz1000 registered_params 5000 (example_cubic_sock 20 0
        (zero_bictcp\<lparr>delay_min := 10000, curr_rtt := 10000, sample_cnt := 8, end_seq := 1000\<rparr>))
      19000)) = 0 \<and>
   snd_ssthresh (cubictcp_acked kernel_hz1000 registered_params 5000 (example_cubic_sock 20 0
        (zero_bictcp\<lparr>delay_min := 10000, curr_rtt := 10000, sample_cnt := 8, end_seq := 1000\<rparr>))
      19000) = 0x7fffffff \<and>
   found (icsk_ca (hystart_update registered_params (example_cubic_sock 20 0
        (zero_bictcp\<lparr>delay_min := 10000, curr_rtt := 10000, sample_cnt := 8, end_seq := 1000\<rparr>))
      19000)) = 0 \<and>
   curr_rtt (icsk_ca (hystart_update registered_params (example_cubic_sock 20 0
        (zero_bictcp\<lparr>delay_min := 10000, curr_rtt := 10000, sample_cnt := 8, end_seq := 1000\<rparr>))
      19000)) = 10000"
  by (simp add: registered_params_eq initial_params_def example_cubic_sock_def zero_bictcp_def
      cubictcp_acked_def hystart_update_def hystart_delay_def hystart_ack_train_def
      bictcp_hystart_reset_def bictcp_clock_us_def after_def tcp_in_slow_start_def
      HYSTART_DELAY_def HYSTART_ACK_TRAIN_def HYSTART_MIN_SAMPLES_def HYSTART_DELAY_THRESH_def
      clamp_def HYSTART_DELAY_MIN_def HYSTART_DELAY_MAX_def hystart_ack_delay_def
      SK_PACING_NONE_def Let_def)

section \<open>The phase clock\<close>







section \<open>Accuracy and monotonicity of the cube root\<close>

subsection \<open>The result over the natural numbers\<close>

lemma all_from_numeral:
  "all_from P lo (numeral k) = (P lo \<and> all_from P (Suc lo) (pred_numeral k))"
  by (simp add: numeral_eq_Suc)

lemma all_fromD: "all_from P lo k \<Longrightarrow> lo \<le> i \<Longrightarrow> i < lo + k \<Longrightarrow> P i"
proof (induction k arbitrary: lo)
  case 0
  then show ?case by simp
next
  case (Suc k)
  show ?case
  proof (cases "i = lo")
    case True
    with Suc.prems(1) show ?thesis by simp
  next
    case False
    with Suc.prems have "all_from P (Suc lo) k" "Suc lo \<le> i" "i < Suc lo + k" by simp_all
    then show ?thesis by (rule Suc.IH)
  qed
qed

lemma cr_tab_simps:
  "cr_tab 8 = 123" "cr_tab 9 = 129" "cr_tab 10 = 134" "cr_tab 11 = 138"
  "cr_tab 12 = 143" "cr_tab 13 = 147" "cr_tab 14 = 151" "cr_tab 15 = 156"
  "cr_tab 16 = 157" "cr_tab 17 = 161" "cr_tab 18 = 164" "cr_tab 19 = 168"
  "cr_tab 20 = 170" "cr_tab 21 = 173" "cr_tab 22 = 176" "cr_tab 23 = 179"
  "cr_tab 24 = 181" "cr_tab 25 = 185" "cr_tab 26 = 187" "cr_tab 27 = 190"
  "cr_tab 28 = 192" "cr_tab 29 = 194" "cr_tab 30 = 197" "cr_tab 31 = 199"
  "cr_tab 32 = 200" "cr_tab 33 = 202" "cr_tab 34 = 204" "cr_tab 35 = 206"
  "cr_tab 36 = 209" "cr_tab 37 = 211" "cr_tab 38 = 213" "cr_tab 39 = 215"
  "cr_tab 40 = 217" "cr_tab 41 = 219" "cr_tab 42 = 221" "cr_tab 43 = 222"
  "cr_tab 44 = 224" "cr_tab 45 = 225" "cr_tab 46 = 227" "cr_tab 47 = 229"
  "cr_tab 48 = 231" "cr_tab 49 = 232" "cr_tab 50 = 234" "cr_tab 51 = 236"
  "cr_tab 52 = 237" "cr_tab 53 = 239" "cr_tab 54 = 240" "cr_tab 55 = 242"
  "cr_tab 56 = 244" "cr_tab 57 = 245" "cr_tab 58 = 246" "cr_tab 59 = 248"
  "cr_tab 60 = 250" "cr_tab 61 = 251" "cr_tab 62 = 252" "cr_tab 63 = 254"
  by (simp_all add: cr_tab_def cubic_root_v_def)

lemma cr_tab_bounds:
  assumes "8 \<le> s" "s \<le> 63"
  shows "123 \<le> cr_tab s \<and> cr_tab s \<le> 254"
proof -
  have "all_from (\<lambda>s. 123 \<le> cr_tab s \<and> cr_tab s \<le> 254) 8 56"
    by (simp add: all_from_numeral cr_tab_simps)
  from all_fromD [OF this, of s] assms show ?thesis by simp
qed

lemma pow8: "(2::nat) ^ (3 * k) = 8 ^ k"
  by (simp add: power_mult)

lemma cell_of:
  assumes "64 \<le> n" "n < 2 ^ 64"
  shows "1 \<le> cr_bp n \<and> cr_bp n \<le> 20 \<and> 8 * 8 ^ cr_bp n \<le> n \<and> n < 64 * 8 ^ cr_bp n"
proof -
  define b where "b = fls_nat n"
  define k where "k = cr_bp n"
  have npos: "0 < n" using assms by simp
  have b64: "b \<le> 64" unfolding b_def using assms(2) by (rule fls_nat_le)
  have n: "2 ^ (b - 1) \<le> n" "n < 2 ^ b" using fls_nat_bounds [OF npos] by (simp_all add: b_def)
  have b7: "7 \<le> b"
  proof (rule ccontr)
    assume "\<not> 7 \<le> b"
    then have "(2::nat) ^ b \<le> 2 ^ 6" by (intro power_increasing) simp_all
    with n(2) assms(1) show False by simp
  qed
  have k: "1 \<le> k" "k \<le> 20" "3 * k + 4 \<le> b" "b \<le> 3 * k + 6"
    using b_range [OF b7 b64] by (simp_all add: k_def cr_bp_def b_def)
  have "(2::nat) ^ (3 * k + 3) \<le> 2 ^ (b - 1)" using k(3) by (intro power_increasing) simp_all
  with n(1) have lo: "8 * 8 ^ k \<le> n" by (simp add: power_add pow8)
  have "(2::nat) ^ b \<le> 2 ^ (3 * k + 6)" using k(4) by (intro power_increasing) simp_all
  with n(2) have hi: "n < 64 * 8 ^ k" by (simp add: power_add pow8)
  from k(1,2) lo hi show ?thesis unfolding k_def by simp
qed

lemma cell_unique:
  assumes "8 * 8 ^ k \<le> n" "n < 64 * 8 ^ k" "1 \<le> k" "n < 2 ^ 64"
  shows "cr_bp n = k"
proof -
  have "(8::nat) ^ 1 \<le> 8 ^ k" using assms(3) by (intro power_increasing) simp_all
  with assms(1) have "64 \<le> n" by simp
  from cell_of [OF this assms(4)]
  have j: "8 * 8 ^ cr_bp n \<le> n" "n < 64 * 8 ^ cr_bp n" by simp_all
  show ?thesis
  proof (rule ccontr)
    assume "cr_bp n \<noteq> k"
    then consider "cr_bp n < k" | "k < cr_bp n" by linarith
    then show False
    proof cases
      case 1
      then have "(8::nat) ^ (cr_bp n + 2) \<le> 8 ^ (k + 1)" by (intro power_increasing) simp_all
      with j(2) assms(1) show False by simp
    next
      case 2
      then have "(8::nat) ^ (k + 2) \<le> 8 ^ (cr_bp n + 1)" by (intro power_increasing) simp_all
      with j(1) assms(2) show False by simp
    qed
  qed
qed

lemma cell_R_mono: "n \<le> n' \<Longrightarrow> cell_R k s n \<le> cell_R k s n'"
  unfolding cell_R_def by (intro div_le_mono mult_le_mono add_le_mono) simp_all

lemma cr_nat_cell:
  assumes "8 * 8 ^ k \<le> n" "n < 64 * 8 ^ k" "1 \<le> k" "n < 2 ^ 64"
  shows "cr_nat n = cell_R k (n div 8 ^ k) n"
  unfolding cr_nat_def cell_unique [OF assms] ..


lemma ovf_all: "all_from (\<lambda>k. ovf_bound k < 2 ^ 32) 1 20"
  by (simp add: all_from_numeral ovf_bound_def)

lemma cell_x_bounds:
  assumes "1 \<le> k" "8 \<le> s" "s \<le> 63"
  shows "133 * 2 ^ k div 64 \<le> cell_x k s" "cell_x k s \<le> 264 * 2 ^ k div 64" "4 \<le> 133 * 2 ^ k div (64::nat)"
proof -
  have t: "123 \<le> cr_tab s" "cr_tab s \<le> 254" using cr_tab_bounds [OF assms(2,3)] by simp_all
  show "133 * 2 ^ k div 64 \<le> cell_x k s"
    unfolding cell_x_def using t by (intro div_le_mono mult_le_mono) simp_all
  show "cell_x k s \<le> 264 * 2 ^ k div 64"
    unfolding cell_x_def using t by (intro div_le_mono mult_le_mono) simp_all
  have "(2::nat) ^ 1 \<le> 2 ^ k" using assms(1) by (intro power_increasing) simp_all
  then have "(133::nat) * 2 \<le> 133 * 2 ^ k" by simp
  then have "(133::nat) * 2 div 64 \<le> 133 * 2 ^ k div 64" by (rule div_le_mono)
  then show "4 \<le> 133 * 2 ^ k div (64::nat)" by simp
qed

lemma cell_no_overflow:
  assumes "1 \<le> k" "k \<le> 20" "8 \<le> s" "s \<le> 63" "n < 64 * 8 ^ k" "n < 2 ^ 64"
  shows "(2 * cell_x k s + n div (cell_x k s * (cell_x k s - 1))) * 341 < 2 ^ 32"
proof -
  define xmin :: nat where "xmin = 133 * 2 ^ k div 64"
  define xmax :: nat where "xmax = 264 * 2 ^ k div 64"
  define x where "x = cell_x k s"
  note xb = cell_x_bounds [OF assms(1,3,4), folded xmin_def xmax_def x_def]
  have dpos: "0 < xmin * (xmin - 1)" using xb(3) by simp
  have dmin: "xmin * (xmin - 1) \<le> x * (x - 1)" using xb(1) by (intro mult_le_mono) simp_all
  have "n \<le> min (64 * 8 ^ k) (2 ^ 64) - 1" using assms(5,6) by simp
  then have "n div (x * (x - 1)) \<le> (min (64 * 8 ^ k) (2 ^ 64) - 1) div (xmin * (xmin - 1))"
    using div_le_mono2 [OF dpos dmin, of n] div_le_mono [of n _ "xmin * (xmin - 1)"]
    by (meson le_trans)
  then have "(2 * x + n div (x * (x - 1))) * 341 \<le> ovf_bound k"
    unfolding ovf_bound_def xmin_def [symmetric] xmax_def [symmetric]
    using xb(2) by (intro mult_le_mono add_le_mono) simp_all
  moreover have "ovf_bound k < 2 ^ 32"
    using all_fromD [OF ovf_all, of k] assms(1,2) by simp
  ultimately show ?thesis unfolding x_def by simp
qed

lemma fls64_ge7: "7 \<le> fls64 a \<Longrightarrow> 64 \<le> unat a"
proof -
  assume b: "7 \<le> fls64 a"
  have "0 < unat a"
  proof (rule ccontr)
    assume "\<not> 0 < unat a"
    then have "fls64 a = 0" by (simp add: fls64_def fls_nat.simps)
    with b show False by simp
  qed
  then have "2 ^ (fls64 a - 1) \<le> unat a" using fls_nat_bounds [of "unat a"] by (simp add: fls64_def)
  moreover have "(2::nat) ^ 6 \<le> 2 ^ (fls64 a - 1)" using b by (intro power_increasing) simp_all
  ultimately show ?thesis by simp
qed

lemma cubic_root_nat:
  assumes "7 \<le> fls64 a"
  shows "\<exists>r. cubic_root a = Some r \<and> unat r = cr_nat (unat a)"
proof -
  define n where "n = unat a"
  define k where "k = cr_bp n"
  define s where "s = n div 8 ^ k"
  have k_eq: "fls64 a * 84 div 256 - 1 = k" by (simp add: k_def cr_bp_def n_def fls64_def)
  from cubic_root_x0_eq [OF assms, unfolded k_eq pow8, folded n_def, folded s_def]
  obtain x where s: "8 \<le> s" "s < 64" and k: "1 \<le> k" "k \<le> 20"
    and x: "cubic_root_x0 a = Some x" "unat x = cell_x k s"
    unfolding cell_x_def cr_tab_def by blast
  have n64: "64 \<le> n" "n < 2 ^ 64"
    using fls64_ge7 [OF assms] unsigned_less [of a] by (simp_all add: n_def)
  have nk: "n < 64 * 8 ^ k" using cell_of [OF n64] by (simp add: k_def)
  define X where "X = cell_x k s"
  define q where "q = n div (X * (X - 1))"
  have ovf: "(2 * X + q) * 341 < 2 ^ 32"
    unfolding X_def q_def using k s nk n64(2) by (intro cell_no_overflow) simp_all
  have X4: "4 \<le> X" unfolding X_def using cell_x_bounds [OF k(1) s(1), of ] s(2) by simp
  then have x2: "2 \<le> unat x" by (simp add: x(2) X_def)
  note d = newton_divisor [OF x2]
  define d' :: u64 where "d' = ucast x * ucast (x - 1)"
  have ud: "unat d' = X * (X - 1)" using d(1) by (simp add: d'_def x(2) X_def)
  have uq: "unat (a div d') = q" by (simp add: unat_div ud q_def n_def)
  have q32: "q < 2 ^ 32" using ovf by simp
  have uq32: "unat (ucast (a div d') :: u32) = q" using q32 by (simp add: unat_ucast_64_32 uq)
  have "unat (2 :: u32) * unat x < 2 ^ LENGTH(32)" using ovf by (simp add: x(2) X_def)
  then have u2x: "unat (2 * x) = 2 * X" by (simp add: unat_mult_lem [THEN iffD1] x(2) X_def)
  define w :: u32 where "w = 2 * x + ucast (a div d')"
  have "unat (2 * x) + unat (ucast (a div d') :: u32) < 2 ^ LENGTH(32)"
    using ovf by (simp add: u2x uq32)
  then have ux1: "unat w = 2 * X + q"
    unfolding w_def by (simp add: unat_add_lem [THEN iffD1] u2x uq32)
  have "unat w * unat (341 :: u32) < 2 ^ LENGTH(32)"
    using ovf by (simp add: ux1)
  then have "unat (w * 341) = unat w * unat (341 :: u32)"
    by (rule unat_mult_lem [THEN iffD1])
  then have um: "unat (w * 341) = (2 * X + q) * 341"
    by (simp only: ux1) simp
  have "unat (drop_bit 10 (w * 341)) = (2 * X + q) * 341 div 1024"
    by (simp only: unat_drop_bit_div um) simp
  then have ur: "unat (drop_bit 10 (w * 341)) = cr_nat n"
    by (simp only: cr_nat_def cell_R_def k_def [symmetric] s_def [symmetric]
        X_def [symmetric] q_def [symmetric])
  have "cubic_root a = Some (drop_bit 10 (w * 341))"
    using assms d(2) unfolding w_def
    by (simp add: cubic_root_def x(1) cubic_root_newton_def Let_def d'_def)
  with ur show ?thesis unfolding n_def by blast
qed

subsection \<open>Monotonicity from 464 on\<close>

text \<open>
  Inside a cell the result is non-decreasing; from one cell to the next it is
  non-decreasing wherever the boundary lies above 464, by evaluation of the 1067
  boundaries.
\<close>

lemma bnd_1: "all_from (bnd 1) 58 6"
  by (simp add: all_from_numeral bnd_def cell_R_def cell_x_def cr_tab_simps)

lemma bnd_2: "all_from (bnd 2) 8 56"
  by (simp add: all_from_numeral bnd_def cell_R_def cell_x_def cr_tab_simps)

lemma bnd_3: "all_from (bnd 3) 8 56"
  by (simp add: all_from_numeral bnd_def cell_R_def cell_x_def cr_tab_simps)

lemma bnd_4: "all_from (bnd 4) 8 56"
  by (simp add: all_from_numeral bnd_def cell_R_def cell_x_def cr_tab_simps)

lemma bnd_5: "all_from (bnd 5) 8 56"
  by (simp add: all_from_numeral bnd_def cell_R_def cell_x_def cr_tab_simps)

lemma bnd_6: "all_from (bnd 6) 8 56"
  by (simp add: all_from_numeral bnd_def cell_R_def cell_x_def cr_tab_simps)

lemma bnd_7: "all_from (bnd 7) 8 56"
  by (simp add: all_from_numeral bnd_def cell_R_def cell_x_def cr_tab_simps)

lemma bnd_8: "all_from (bnd 8) 8 56"
  by (simp add: all_from_numeral bnd_def cell_R_def cell_x_def cr_tab_simps)

lemma bnd_9: "all_from (bnd 9) 8 56"
  by (simp add: all_from_numeral bnd_def cell_R_def cell_x_def cr_tab_simps)

lemma bnd_10: "all_from (bnd 10) 8 56"
  by (simp add: all_from_numeral bnd_def cell_R_def cell_x_def cr_tab_simps)

lemma bnd_11: "all_from (bnd 11) 8 56"
  by (simp add: all_from_numeral bnd_def cell_R_def cell_x_def cr_tab_simps)

lemma bnd_12: "all_from (bnd 12) 8 56"
  by (simp add: all_from_numeral bnd_def cell_R_def cell_x_def cr_tab_simps)

lemma bnd_13: "all_from (bnd 13) 8 56"
  by (simp add: all_from_numeral bnd_def cell_R_def cell_x_def cr_tab_simps)

lemma bnd_14: "all_from (bnd 14) 8 56"
  by (simp add: all_from_numeral bnd_def cell_R_def cell_x_def cr_tab_simps)

lemma bnd_15: "all_from (bnd 15) 8 56"
  by (simp add: all_from_numeral bnd_def cell_R_def cell_x_def cr_tab_simps)

lemma bnd_16: "all_from (bnd 16) 8 56"
  by (simp add: all_from_numeral bnd_def cell_R_def cell_x_def cr_tab_simps)

lemma bnd_17: "all_from (bnd 17) 8 56"
  by (simp add: all_from_numeral bnd_def cell_R_def cell_x_def cr_tab_simps)

lemma bnd_18: "all_from (bnd 18) 8 56"
  by (simp add: all_from_numeral bnd_def cell_R_def cell_x_def cr_tab_simps)

lemma bnd_19: "all_from (bnd 19) 8 56"
  by (simp add: all_from_numeral bnd_def cell_R_def cell_x_def cr_tab_simps)

lemma bnd_20: "all_from (bnd 20) 8 7"
  by (simp add: all_from_numeral bnd_def cell_R_def cell_x_def cr_tab_simps)

lemma bnd_all:
  assumes "1 \<le> k" "k \<le> 20" "8 \<le> s" "s \<le> 63" "464 < Suc s * 8 ^ k" "Suc s * 8 ^ k < 2 ^ 64"
  shows "bnd k s"
proof -
  have "all_from (\<lambda>c. c = 1 \<or> c = 2 \<or> c = 3 \<or> c = 4 \<or> c = 5 \<or> c = 6 \<or> c = 7 \<or> c = 8 \<or> c = 9 \<or> c = 10 \<or> c = 11 \<or> c = 12 \<or> c = 13 \<or> c = 14 \<or> c = 15 \<or> c = 16 \<or> c = 17 \<or> c = 18 \<or> c = 19 \<or> c = 20) 1 20"
    by (simp add: all_from_numeral)
  from all_fromD [OF this, of k] assms(1,2) have "k = 1 \<or> k = 2 \<or> k = 3 \<or> k = 4 \<or> k = 5 \<or> k = 6 \<or> k = 7 \<or> k = 8 \<or> k = 9 \<or> k = 10 \<or> k = 11 \<or> k = 12 \<or> k = 13 \<or> k = 14 \<or> k = 15 \<or> k = 16 \<or> k = 17 \<or> k = 18 \<or> k = 19 \<or> k = 20"
    by simp
  then consider "k = 1" | "k = 2" | "k = 3" | "k = 4" | "k = 5" | "k = 6" | "k = 7" | "k = 8" | "k = 9" | "k = 10" | "k = 11" | "k = 12" | "k = 13" | "k = 14" | "k = 15" | "k = 16" | "k = 17" | "k = 18" | "k = 19" | "k = 20"
    by blast
  then show ?thesis
  proof cases
    case 1
    with assms(5) have "58 \<le> s" by simp
    with all_fromD [OF bnd_1, of s] assms(4) 1 show ?thesis by simp
  next
    case 2
    with all_fromD [OF bnd_2, of s] assms(3,4) show ?thesis by simp
  next
    case 3
    with all_fromD [OF bnd_3, of s] assms(3,4) show ?thesis by simp
  next
    case 4
    with all_fromD [OF bnd_4, of s] assms(3,4) show ?thesis by simp
  next
    case 5
    with all_fromD [OF bnd_5, of s] assms(3,4) show ?thesis by simp
  next
    case 6
    with all_fromD [OF bnd_6, of s] assms(3,4) show ?thesis by simp
  next
    case 7
    with all_fromD [OF bnd_7, of s] assms(3,4) show ?thesis by simp
  next
    case 8
    with all_fromD [OF bnd_8, of s] assms(3,4) show ?thesis by simp
  next
    case 9
    with all_fromD [OF bnd_9, of s] assms(3,4) show ?thesis by simp
  next
    case 10
    with all_fromD [OF bnd_10, of s] assms(3,4) show ?thesis by simp
  next
    case 11
    with all_fromD [OF bnd_11, of s] assms(3,4) show ?thesis by simp
  next
    case 12
    with all_fromD [OF bnd_12, of s] assms(3,4) show ?thesis by simp
  next
    case 13
    with all_fromD [OF bnd_13, of s] assms(3,4) show ?thesis by simp
  next
    case 14
    with all_fromD [OF bnd_14, of s] assms(3,4) show ?thesis by simp
  next
    case 15
    with all_fromD [OF bnd_15, of s] assms(3,4) show ?thesis by simp
  next
    case 16
    with all_fromD [OF bnd_16, of s] assms(3,4) show ?thesis by simp
  next
    case 17
    with all_fromD [OF bnd_17, of s] assms(3,4) show ?thesis by simp
  next
    case 18
    with all_fromD [OF bnd_18, of s] assms(3,4) show ?thesis by simp
  next
    case 19
    with all_fromD [OF bnd_19, of s] assms(3,4) show ?thesis by simp
  next
    case 20
    with assms(6) have "s \<le> 14" by simp
    with all_fromD [OF bnd_20, of s] assms(3) 20 show ?thesis by simp
  qed
qed

lemma div_cell: 
  assumes "s * m \<le> (n::nat)" "n < Suc s * m"
  shows "n div m = s"
proof -
  have "0 < m" using assms by (cases m) auto
  then show ?thesis using assms by (intro div_nat_eqI) (simp_all add: mult.commute)
qed

lemma cr_nat_step:
  assumes "464 \<le> n" "Suc n < 2 ^ 64"
  shows "cr_nat n \<le> cr_nat (Suc n)"
proof -
  define k where "k = cr_bp n"
  define s where "s = n div 8 ^ k"
  have n64: "64 \<le> n" "n < 2 ^ 64" using assms by simp_all
  from cell_of [OF n64] have k: "1 \<le> k" "k \<le> 20" and lo: "8 * 8 ^ k \<le> n" and hi: "n < 64 * 8 ^ k"
    by (simp_all add: k_def)
  have p: "(0::nat) < 8 ^ k" by simp
  have s8: "8 \<le> s" unfolding s_def using lo by (simp add: less_eq_div_iff_mult_less_eq)
  have s63: "s \<le> 63" 
  proof -
    have "s < 64" unfolding s_def using hi by (simp add: div_less_iff_less_mult)
    then show ?thesis by simp
  qed
  have slo: "s * 8 ^ k \<le> n" unfolding s_def by (rule div_times_less_eq_dividend)
  have shi: "n < Suc s * 8 ^ k" unfolding s_def using p
    by (metis div_less_iff_less_mult lessI mult.commute)
  have c0: "cr_nat n = cell_R k s n" unfolding cr_nat_def k_def s_def ..
  show ?thesis
  proof (cases "Suc n < Suc s * 8 ^ k")
    case True
    have "Suc s * 8 ^ k \<le> 64 * 8 ^ k" using s63 by (intro mult_le_mono) simp_all
    with True have h: "Suc n < 64 * 8 ^ k" by (rule less_le_trans)
    have l: "8 * 8 ^ k \<le> Suc n" using lo by simp
    have "Suc n div 8 ^ k = s" using slo True by (intro div_cell) simp_all
    with cr_nat_cell [OF l h k(1) assms(2)] have "cr_nat (Suc n) = cell_R k s (Suc n)" by simp
    with c0 show ?thesis by (simp add: cell_R_mono)
  next
    case False
    with shi have e: "Suc n = Suc s * 8 ^ k" by simp
    then have n: "n = Suc s * 8 ^ k - 1" by simp
    have b: "bnd k s" using k s8 s63 assms e by (intro bnd_all) simp_all
    show ?thesis
    proof (cases "s = 63")
      case True
      have e': "Suc n = 8 * 8 ^ Suc k" using e True by simp
      have l: "8 * 8 ^ Suc k \<le> Suc n" and h: "Suc n < 64 * 8 ^ Suc k" using e' by simp_all
      have "Suc n div 8 ^ Suc k = 8" using e' by simp
      with cr_nat_cell [OF l h _ assms(2)] have "cr_nat (Suc n) = cell_R (Suc k) 8 (Suc n)" by simp
      with b c0 True e n show ?thesis by (simp add: bnd_def)
    next
      case False
      have "Suc s * 8 ^ k \<le> 63 * 8 ^ k" using False s63 by (intro mult_le_mono) simp_all
      then have "Suc n \<le> 63 * 8 ^ k" by (simp only: e)
      then have h: "Suc n < 64 * 8 ^ k" by simp
      have l: "8 * 8 ^ k \<le> Suc n" using lo by simp
      have "Suc n div 8 ^ k = Suc s" using e by simp
      with cr_nat_cell [OF l h k(1) assms(2)] have "cr_nat (Suc n) = cell_R k (Suc s) (Suc n)"
        by simp
      with b c0 False e n show ?thesis by (simp add: bnd_def)
    qed
  qed
qed

lemma cr_nat_mono:
  assumes "464 \<le> n" "n \<le> n'" "n' < 2 ^ 64"
  shows "cr_nat n \<le> cr_nat n'"
  using assms(2,3)
proof (induction n' rule: dec_induct)
  case base
  show ?case by simp
next
  case (step m)
  then have "cr_nat n \<le> cr_nat m" by simp
  moreover have "cr_nat m \<le> cr_nat (Suc m)" using step assms(1) by (intro cr_nat_step) simp_all
  ultimately show ?case by simp
qed

subsection \<open>The upper bound from \<open>2 ^ 24\<close> on\<close>

text \<open>
  Before rounding down, the result is an affine function of the input inside a cell; its
  cube is convex, so the inequality \<open>result\<^sup>3 \<le> 1.003\<^sup>3 * n\<close> holds on the whole cell once it
  holds at the two ends. From \<open>k = 6\<close> on the initial estimate is \<open>(v[s] + 10) * 2 ^ (k - 6)\<close>
  exactly, and the two ends scale with \<open>8 ^ (k - 6)\<close>: one evaluation for each table index
  settles every \<open>k \<ge> 7\<close>.
\<close>

lemma cube_convex:
  fixes P B j N :: int
  assumes "0 \<le> P" "0 \<le> B" "0 \<le> j" "j \<le> N"
  shows "N * (P + B * j) ^ 3 \<le> (N - j) * P ^ 3 + j * (P + B * N) ^ 3"
proof -
  have "(N - j) * P ^ 3 + j * (P + B * N) ^ 3 - N * (P + B * j) ^ 3
      = j * N * (N - j) * B\<^sup>2 * (3 * P + B * (N + j))"
    by (simp add: power3_eq_cube power2_eq_square algebra_simps)
  moreover have "0 \<le> j * N * (N - j) * B\<^sup>2 * (3 * P + B * (N + j))"
    using assms by (intro mult_nonneg_nonneg add_nonneg_nonneg) simp_all
  ultimately show ?thesis by linarith
qed

lemma convex_cubic_bound:
  fixes P B c a0 j N :: int
  assumes "0 \<le> P" "0 \<le> B" "0 \<le> j" "j \<le> N" "0 < N"
    and lo: "P ^ 3 \<le> c * a0" and hi: "(P + B * N) ^ 3 \<le> c * (a0 + N)"
  shows "(P + B * j) ^ 3 \<le> c * (a0 + j)"
proof -
  have "N * (P + B * j) ^ 3 \<le> (N - j) * P ^ 3 + j * (P + B * N) ^ 3"
    using assms(1-4) by (rule cube_convex)
  also have "\<dots> \<le> (N - j) * (c * a0) + j * (c * (a0 + N))"
    using lo hi assms(3,4) by (intro add_mono mult_left_mono) simp_all
  also have "\<dots> = N * (c * (a0 + j))" by (simp add: algebra_simps)
  finally show ?thesis using assms(5) by simp
qed


lemma scale_cubic:
  fixes c1 c2 c3 c4 m w E :: nat
  assumes "(c1 * (c2 * m ^ 3 + c3 * w)) ^ 3 \<le> (c4 * m\<^sup>2) ^ 3 * w"
  shows "(c1 * (c2 * (m * E) ^ 3 + c3 * (w * E ^ 3))) ^ 3 \<le> (c4 * (m * E)\<^sup>2) ^ 3 * (w * E ^ 3)"
proof -
  have cube: "(X * E ^ 3) ^ 3 = X ^ 3 * E ^ 9" for X :: nat
    by (simp add: power_mult_distrib flip: power_mult)
  have "c1 * (c2 * (m * E) ^ 3 + c3 * (w * E ^ 3)) = c1 * (c2 * m ^ 3 + c3 * w) * E ^ 3"
    by (simp add: power_mult_distrib algebra_simps)
  then have l: "(c1 * (c2 * (m * E) ^ 3 + c3 * (w * E ^ 3))) ^ 3
      = (c1 * (c2 * m ^ 3 + c3 * w)) ^ 3 * E ^ 9"
    by (simp only: cube)
  have sq: "(X * E\<^sup>2) ^ 3 = X ^ 3 * E ^ 6" for X :: nat
    by (simp add: power_mult_distrib flip: power_mult)
  have "c4 * (m * E)\<^sup>2 = c4 * m\<^sup>2 * E\<^sup>2" by (simp add: power_mult_distrib)
  then have "(c4 * (m * E)\<^sup>2) ^ 3 = (c4 * m\<^sup>2) ^ 3 * E ^ 6"
    by (simp only: sq)
  moreover have "E ^ 6 * E ^ 3 = E ^ 9" by (simp flip: power_add)
  ultimately have r: "(c4 * (m * E)\<^sup>2) ^ 3 * (w * E ^ 3) = (c4 * m\<^sup>2) ^ 3 * w * E ^ 9"
    by (simp add: mult.assoc mult.left_commute)
  show ?thesis unfolding l r using assms by (rule mult_le_mono1)
qed

lemma cell_x_exact:
  assumes "6 \<le> k"
  shows "cell_x k s = (cr_tab s + 10) * 2 ^ (k - 6)"
proof -
  from assms obtain e where k: "k = e + 6" by (metis add.commute le_iff_add)
  show ?thesis by (simp add: cell_x_def k power_add)
qed

lemma pow8_split:
  assumes "6 \<le> k"
  shows "(8::nat) ^ k = 2 ^ 18 * (2 ^ (k - 6)) ^ 3"
proof -
  from assms obtain e where k: "k = e + 6" by (metis add.commute le_iff_add)
  have "(8::nat) ^ e = (2 ^ e) ^ 3" by (simp add: mult.commute flip: power_mult pow8)
  then show ?thesis by (simp add: k power_add)
qed


lemma convex_cubic_bound_nat:
  fixes c1 A c3 C a0 j N :: nat
  assumes "j \<le> N" "0 < N"
    and lo: "(c1 * (A + c3 * a0)) ^ 3 \<le> C * a0"
    and hi: "(c1 * (A + c3 * (a0 + N))) ^ 3 \<le> C * (a0 + N)"
  shows "(c1 * (A + c3 * (a0 + j))) ^ 3 \<le> C * (a0 + j)"
proof -
  define P :: int where "P = int (c1 * (A + c3 * a0))"
  define B :: int where "B = int (c1 * c3)"
  have e: "int (c1 * (A + c3 * (a0 + i))) = P + B * int i" for i
    by (simp add: P_def B_def algebra_simps)
  have P0: "0 \<le> P" and B0: "0 \<le> B" by (simp_all add: P_def B_def)
  have "int ((c1 * (A + c3 * a0)) ^ 3) \<le> int (C * a0)" using lo by (simp only: of_nat_le_iff)
  then have lo': "P ^ 3 \<le> int C * int a0" by (simp only: of_nat_power P_def [symmetric]) (simp only: of_nat_mult)
  have "int ((c1 * (A + c3 * (a0 + N))) ^ 3) \<le> int (C * (a0 + N))"
    using hi by (simp only: of_nat_le_iff)
  then have hi': "(P + B * int N) ^ 3 \<le> int C * (int a0 + int N)"
    by (simp only: of_nat_power e) (simp only: of_nat_mult of_nat_add)
  have j: "0 \<le> int j" "int j \<le> int N" "0 < int N" using assms(1,2) by simp_all
  have "(P + B * int j) ^ 3 \<le> int C * (int a0 + int j)"
    using P0 B0 j lo' hi' by (rule convex_cubic_bound)
  then have "int ((c1 * (A + c3 * (a0 + j))) ^ 3) \<le> int (C * (a0 + j))"
    by (simp only: of_nat_power e) (simp only: of_nat_mult of_nat_add)
  then show ?thesis by (simp only: of_nat_le_iff)
qed

lemma up_ok_all: "all_from (\<lambda>s. up_ok s (s * 2 ^ 18) \<and> up_ok s (Suc s * 2 ^ 18)) 8 56"
  by (simp add: all_from_numeral up_ok_def cr_tab_simps)

lemma cell_upper_poly:
  assumes k: "7 \<le> k" and s: "8 \<le> s" "s \<le> 63"
    and n: "s * 8 ^ k \<le> n" "n \<le> Suc s * 8 ^ k"
  shows "(341000 * (530 * cell_x k s ^ 3 + 266 * n)) ^ 3 \<le> (272174080 * (cell_x k s)\<^sup>2) ^ 3 * n"
proof -
  define m where "m = cr_tab s + 10"
  define E :: nat where "E = 2 ^ (k - 6)"
  define x where "x = cell_x k s"
  have x: "x = m * E" unfolding x_def m_def E_def using k by (intro cell_x_exact) simp
  have p8: "(8::nat) ^ k = 2 ^ 18 * E ^ 3" unfolding E_def using k by (intro pow8_split) simp
  from all_fromD [OF up_ok_all, of s] s
  have u: "up_ok s (s * 2 ^ 18)" "up_ok s (Suc s * 2 ^ 18)" by simp_all
  have I: "(341000 * (530 * x ^ 3 + 266 * (w * E ^ 3))) ^ 3 \<le> (272174080 * x\<^sup>2) ^ 3 * (w * E ^ 3)"
    if "up_ok s w" for w
  proof -
    from that have "(341000 * (530 * m ^ 3 + 266 * w)) ^ 3 \<le> (272174080 * m\<^sup>2) ^ 3 * w"
      unfolding up_ok_def m_def .
    then show ?thesis unfolding x by (rule scale_cubic)
  qed
  define a0 where "a0 = s * 8 ^ k"
  have a0: "a0 = s * 2 ^ 18 * E ^ 3" by (simp add: a0_def p8)
  have a1: "a0 + 8 ^ k = Suc s * 2 ^ 18 * E ^ 3" by (simp add: a0_def p8 algebra_simps)
  have lo: "(341000 * (530 * x ^ 3 + 266 * a0)) ^ 3 \<le> (272174080 * x\<^sup>2) ^ 3 * a0"
    unfolding a0 by (rule I [OF u(1)])
  have hi: "(341000 * (530 * x ^ 3 + 266 * (a0 + 8 ^ k))) ^ 3 \<le> (272174080 * x\<^sup>2) ^ 3 * (a0 + 8 ^ k)"
    unfolding a1 by (rule I [OF u(2)])
  define j where "j = n - a0"
  have nj: "n = a0 + j" and jN: "j \<le> 8 ^ k" using n by (simp_all add: j_def a0_def)
  have "(341000 * (530 * x ^ 3 + 266 * (a0 + j))) ^ 3 \<le> (272174080 * x\<^sup>2) ^ 3 * (a0 + j)"
    using jN _ lo hi by (rule convex_cubic_bound_nat) simp
  then show ?thesis unfolding x_def nj .
qed
lemma cell_upper:
  assumes k: "7 \<le> k" and s: "8 \<le> s" "s \<le> 63"
    and n: "s * 8 ^ k \<le> n" "n \<le> Suc s * 8 ^ k"
  shows "(1000 * cell_R k s n) ^ 3 \<le> 1003 ^ 3 * n"
proof -
  define x where "x = cell_x k s"
  define D where "D = x * (x - 1)"
  define q where "q = n div D"
  define R where "R = cell_R k s n"
  define Z where "Z = 271360 * x\<^sup>2"
  have "133 * 2 ^ k div 64 \<le> x" unfolding x_def using k s by (intro cell_x_bounds) simp_all
  moreover have "(133::nat) * 2 ^ 7 div 64 \<le> 133 * 2 ^ k div 64"
    using k by (intro div_le_mono mult_le_mono power_increasing) simp_all
  ultimately have x266: "266 \<le> x" by simp
  then obtain y where y: "x = y + 266" by (metis add.commute le_iff_add)
  have h2: "265 * x\<^sup>2 \<le> 266 * D"
    unfolding D_def y by (simp add: power2_eq_square algebra_simps)
  have h1: "1024 * R \<le> 341 * (2 * x + q)"
    unfolding R_def cell_R_def x_def [symmetric] D_def [symmetric] q_def [symmetric]
    by (metis div_times_less_eq_dividend mult.commute)
  have h3: "q * D \<le> n" unfolding q_def by (rule div_times_less_eq_dividend)
  have "265 * x\<^sup>2 * q \<le> 266 * D * q" using h2 by (rule mult_le_mono1)
  also have "\<dots> = 266 * (q * D)" by simp
  also have "\<dots> \<le> 266 * n" using h3 by (rule mult_le_mono2)
  finally have h4: "265 * x\<^sup>2 * q \<le> 266 * n" .
  have "1024 * R * (265 * x\<^sup>2) \<le> 341 * (2 * x + q) * (265 * x\<^sup>2)"
    using h1 by (rule mult_le_mono1)
  also have "\<dots> = 341 * (530 * x ^ 3 + 265 * x\<^sup>2 * q)"
    by (simp add: power3_eq_cube power2_eq_square algebra_simps)
  also have "\<dots> \<le> 341 * (530 * x ^ 3 + 266 * n)"
    using h4 by (intro mult_le_mono2 add_le_mono) simp_all
  finally have h5: "1024 * R * (265 * x\<^sup>2) \<le> 341 * (530 * x ^ 3 + 266 * n)" .
  have "1000 * R * Z = 1000 * (1024 * R * (265 * x\<^sup>2))" by (simp add: Z_def)
  also have "\<dots> \<le> 1000 * (341 * (530 * x ^ 3 + 266 * n))" using h5 by (rule mult_le_mono2)
  also have "\<dots> = 341000 * (530 * x ^ 3 + 266 * n)" by simp
  finally have "(1000 * R * Z) ^ 3 \<le> (341000 * (530 * x ^ 3 + 266 * n)) ^ 3"
    by (rule power_mono) simp
  also have "\<dots> \<le> (272174080 * x\<^sup>2) ^ 3 * n"
    unfolding x_def using assms by (rule cell_upper_poly)
  also have "272174080 * x\<^sup>2 = 1003 * Z" by (simp add: Z_def)
  finally have "(1000 * R) ^ 3 * Z ^ 3 \<le> 1003 ^ 3 * n * Z ^ 3"
    by (simp only: power_mult_distrib mult.assoc mult.left_commute mult.commute)
  moreover have "0 < Z ^ 3" using x266 by (simp add: Z_def)
  ultimately show ?thesis unfolding R_def by simp
qed

subsection \<open>The lower bound\<close>

text \<open>
  By the inequality of the arithmetic and the geometric mean, \<open>2 * x + n / x\<^sup>2\<close> is at
  least 3 times the cube root of \<open>n\<close>, whatever the estimate \<open>x\<close>. The roundings and the
  factor \<open>341 / 1024\<close> lose less than 0.3% once the result is 657 or more. For the
  results from 374 to 656 the bound follows from monotonicity and one evaluation for each
  result.
\<close>

lemma am_gm_cube:
  fixes x z :: nat
  shows "27 * x\<^sup>2 * z \<le> (2 * x + z) ^ 3"
proof -
  have "(2 * int x + int z) ^ 3 - 27 * (int x)\<^sup>2 * int z
      = (int z - int x)\<^sup>2 * (int z + 8 * int x)"
    by (simp add: power3_eq_cube power2_eq_square algebra_simps)
  moreover have "0 \<le> (int z - int x)\<^sup>2 * (int z + 8 * int x)"
    by (intro mult_nonneg_nonneg) simp_all
  ultimately have "27 * (int x)\<^sup>2 * int z \<le> (2 * int x + int z) ^ 3" by linarith
  then have "int (27 * x\<^sup>2 * z) \<le> int ((2 * x + z) ^ 3)" by simp
  then show ?thesis by (simp only: of_nat_le_iff)
qed

lemma cell_lower:
  assumes x: "2 \<le> cell_x k s" and R: "657 \<le> cell_R k s n"
  shows "997 ^ 3 * n \<le> (1000 * cell_R k s n) ^ 3"
proof (rule ccontr)
  assume neg: "\<not> 997 ^ 3 * n \<le> (1000 * cell_R k s n) ^ 3"
  define x where "x = cell_x k s"
  define D where "D = x * (x - 1)"
  define q where "q = n div D"
  define R where "R = cell_R k s n"
  define Y where "Y = 2 * x + Suc q"
  have Dpos: "0 < D" using x by (simp add: D_def x_def)
  have "D \<le> x\<^sup>2" by (simp add: D_def power2_eq_square)
  have "n < Suc q * D" unfolding q_def using Dpos
    by (metis dividend_less_div_times mult.commute mult_Suc)
  also have "\<dots> \<le> Suc q * x\<^sup>2" using \<open>D \<le> x\<^sup>2\<close> by (rule mult_le_mono2)
  finally have "27 * n < 27 * (x\<^sup>2 * Suc q)" by (simp add: mult.commute)
  also have "\<dots> \<le> Y ^ 3" unfolding Y_def using am_gm_cube [of x "Suc q"] by (simp add: mult.assoc)
  finally have n27: "27 * n < Y ^ 3" .
  have "(2 * x + q) * 341 < 1024 * R + 1024"
    unfolding R_def cell_R_def x_def [symmetric] D_def [symmetric] q_def [symmetric]
    using dividend_less_div_times [of 1024 "(2 * x + q) * 341"] by (simp add: mult.commute)
  then have "341 * Y \<le> 1024 * R + 1364" by (simp add: Y_def)
  then have "(341 * Y) ^ 3 \<le> (1024 * R + 1364) ^ 3" by (rule power_mono) simp
  moreover have "1023 ^ 3 * n < (341 * Y) ^ 3"
  proof -
    have "(1023::nat) ^ 3 * n = 341 ^ 3 * (27 * n)" by simp
    also have "\<dots> < 341 ^ 3 * Y ^ 3" using n27 by simp
    finally show ?thesis by (simp add: power_mult_distrib)
  qed
  ultimately have a: "1023 ^ 3 * n < (1024 * R + 1364) ^ 3" by simp
  from neg have b: "(1000 * R) ^ 3 < 997 ^ 3 * n" by (simp add: R_def)
  have "(1023 * (1000 * R)) ^ 3 = 1023 ^ 3 * (1000 * R) ^ 3" by (rule power_mult_distrib)
  also have "\<dots> < 1023 ^ 3 * (997 ^ 3 * n)" using b by simp
  also have "\<dots> = 997 ^ 3 * (1023 ^ 3 * n)" by simp
  also have "\<dots> < 997 ^ 3 * (1024 * R + 1364) ^ 3" using a by simp
  also have "\<dots> = (997 * (1024 * R + 1364)) ^ 3" by (rule power_mult_distrib [symmetric])
  finally have "1023 * (1000 * R) < 997 * (1024 * R + 1364)"
    by (rule power_less_imp_less_base) simp
  then have "R \<le> 656" by simp
  with R show False by (simp add: R_def)
qed

lemma low_cert_7: "all_from (low_cert 7) 374 137"
  by (simp add: all_from_numeral low_cert_def Let_def cell_R_def cell_x_def cr_tab_simps)

lemma low_cert_8: "all_from (low_cert 8) 511 146"
  by (simp add: all_from_numeral low_cert_def Let_def cell_R_def cell_x_def cr_tab_simps)

lemma cr_nat_upper:
  assumes "2 ^ 24 \<le> n" "n < 2 ^ 64"
  shows "(1000 * cr_nat n) ^ 3 \<le> 1003 ^ 3 * n"
proof -
  define k where "k = cr_bp n"
  define s where "s = n div 8 ^ k"
  have n64: "64 \<le> n" using assms(1) by simp
  from cell_of [OF n64 assms(2)]
  have k: "1 \<le> k" "k \<le> 20" and lo: "8 * 8 ^ k \<le> n" and hi: "n < 64 * 8 ^ k"
    by (simp_all add: k_def)
  have k7: "7 \<le> k"
  proof (rule ccontr)
    assume "\<not> 7 \<le> k"
    then have "(8::nat) ^ k \<le> 8 ^ 6" by (intro power_increasing) simp_all
    with hi assms(1) show False by simp
  qed
  have s8: "8 \<le> s" unfolding s_def using lo by (simp add: less_eq_div_iff_mult_less_eq)
  have "s < 64" unfolding s_def using hi by (simp add: div_less_iff_less_mult)
  then have s63: "s \<le> 63" by simp
  have slo: "s * 8 ^ k \<le> n" unfolding s_def by (rule div_times_less_eq_dividend)
  have "n < Suc s * 8 ^ k" unfolding s_def
    by (metis dividend_less_div_times mult.commute mult_Suc zero_less_numeral zero_less_power)
  then have shi: "n \<le> Suc s * 8 ^ k" by simp
  show ?thesis unfolding cr_nat_def k_def [symmetric] s_def [symmetric]
    using k7 s8 s63 slo shi by (rule cell_upper)
qed

lemma cr_nat_lower_large:
  assumes "64 \<le> n" "n < 2 ^ 64" "657 \<le> cr_nat n"
  shows "997 ^ 3 * n \<le> (1000 * cr_nat n) ^ 3"
proof -
  define k where "k = cr_bp n"
  define s where "s = n div 8 ^ k"
  from cell_of [OF assms(1,2)]
  have k: "1 \<le> k" and lo: "8 * 8 ^ k \<le> n" and hi: "n < 64 * 8 ^ k"
    by (simp_all add: k_def)
  have s8: "8 \<le> s" unfolding s_def using lo by (simp add: less_eq_div_iff_mult_less_eq)
  have "s < 64" unfolding s_def using hi by (simp add: div_less_iff_less_mult)
  then have s63: "s \<le> 63" by simp
  have "2 \<le> cell_x k s" using cell_x_bounds [OF k s8 s63] by simp
  then show ?thesis
    using assms(3) unfolding cr_nat_def k_def [symmetric] s_def [symmetric] by (rule cell_lower)
qed

lemma low_cert_sound:
  assumes "low_cert k r" "2 \<le> k" "k \<le> 19"
  shows "464 \<le> (1000 * r) ^ 3 div 997 ^ 3 + 1 \<and> Suc r \<le> cr_nat ((1000 * r) ^ 3 div 997 ^ 3 + 1)"
proof -
  define n where "n = (1000 * r) ^ 3 div 997 ^ 3 + 1"
  from assms(1) have lo: "8 * 8 ^ k \<le> n" and hi: "n < 64 * 8 ^ k"
    and r: "Suc r \<le> cell_R k (n div 8 ^ k) n"
    by (simp_all add: low_cert_def Let_def n_def)
  have "(8::nat) ^ k \<le> 8 ^ 19" using assms(3) by (intro power_increasing) simp_all
  with hi have n64: "n < 2 ^ 64" by simp
  have k1: "1 \<le> k" using assms(2) by simp
  from cr_nat_cell [OF lo hi k1 n64] r have "Suc r \<le> cr_nat n" by simp
  moreover have "(8::nat) ^ 2 \<le> 8 ^ k" using assms(2) by (intro power_increasing) simp_all
  with lo have "464 \<le> n" by simp
  ultimately show ?thesis unfolding n_def by simp
qed


lemma low_cert_all:
  assumes "374 \<le> r" "r \<le> 656"
  shows "464 \<le> (1000 * r) ^ 3 div 997 ^ 3 + 1 \<and> Suc r \<le> cr_nat ((1000 * r) ^ 3 div 997 ^ 3 + 1)"
proof (cases "r \<le> 510")
  case True
  with assms(1) have "low_cert 7 r" using all_fromD [OF low_cert_7, of r] by simp
  then show ?thesis by (rule low_cert_sound) simp_all
next
  case False
  with assms(2) have "low_cert 8 r" using all_fromD [OF low_cert_8, of r] by simp
  then show ?thesis by (rule low_cert_sound) simp_all
qed

lemma cr_nat_threshold: "cr_nat 52395120 = 374"
proof -
  have "cr_nat 52395120 = cell_R 7 (52395120 div 8 ^ 7) 52395120"
    by (rule cr_nat_cell) simp_all
  then show ?thesis by (simp add: cell_R_def cell_x_def cr_tab_simps)
qed

lemma cr_nat_lower:
  assumes "52395120 \<le> n" "n < 2 ^ 64"
  shows "997 ^ 3 * n \<le> (1000 * cr_nat n) ^ 3"
proof -
  define r where "r = cr_nat n"
  have "cr_nat 52395120 \<le> cr_nat n" using assms by (intro cr_nat_mono) simp_all
  then have r374: "374 \<le> r" by (simp add: cr_nat_threshold r_def)
  show ?thesis
  proof (cases "657 \<le> r")
    case True
    then show ?thesis using assms unfolding r_def by (intro cr_nat_lower_large) simp_all
  next
    case False
    then have r656: "r \<le> 656" by simp
    define t where "t = (1000 * r) ^ 3 div 997 ^ 3"
    from low_cert_all [OF r374 r656] have c: "464 \<le> t + 1" "Suc r \<le> cr_nat (t + 1)"
      by (simp_all add: t_def)
    have "n \<le> t"
    proof (rule ccontr)
      assume "\<not> n \<le> t"
      then have "t + 1 \<le> n" by simp
      with c(1) assms(2) have "cr_nat (t + 1) \<le> cr_nat n" by (intro cr_nat_mono) simp_all
      with c(2) show False by (simp add: r_def)
    qed
    then have "997 ^ 3 * n \<le> 997 ^ 3 * t" by (rule mult_le_mono2)
    also have "\<dots> \<le> (1000 * r) ^ 3" unfolding t_def
      by (metis div_times_less_eq_dividend mult.commute)
    finally show ?thesis by (simp only: r_def)
  qed
qed

lemma relative_error_real:
  fixes n r :: nat
  assumes lo: "997 ^ 3 * n \<le> (1000 * r) ^ 3" and hi: "(1000 * r) ^ 3 \<le> 1003 ^ 3 * n"
  shows "\<bar>real r - root 3 (real n)\<bar> \<le> 3 / 1000 * root 3 (real n)"
proof -
  define c where "c = root 3 (real n)"
  have c0: "0 \<le> c" by (simp add: c_def)
  have c3: "c ^ 3 = real n" unfolding c_def by (rule real_root_pow_pos2) simp_all
  have "real (997 ^ 3 * n) \<le> real ((1000 * r) ^ 3)" using lo by (simp only: of_nat_le_iff)
  then have "(997 * c) ^ 3 \<le> (1000 * real r) ^ 3" by (simp add: power_mult_distrib c3)
  then have a: "997 * c \<le> 1000 * real r"
    by (rule power_le_imp_le_base [of _ 2, simplified eval_nat_numeral(3) [symmetric]]) simp
  have "real ((1000 * r) ^ 3) \<le> real (1003 ^ 3 * n)" using hi by (simp only: of_nat_le_iff)
  then have "(1000 * real r) ^ 3 \<le> (1003 * c) ^ 3" by (simp add: power_mult_distrib c3)
  then have b: "1000 * real r \<le> 1003 * c"
    by (rule power_le_imp_le_base [of _ 2, simplified eval_nat_numeral(3) [symmetric]]) (simp add: c0)
  from a b show ?thesis unfolding c_def [symmetric] by linarith
qed

lemma relative_error_below:
  fixes n r :: nat
  assumes "(1000 * r) ^ 3 < 997 ^ 3 * n"
  shows "\<not> \<bar>real r - root 3 (real n)\<bar> \<le> 3 / 1000 * root 3 (real n)"
proof -
  define c where "c = root 3 (real n)"
  have c0: "0 \<le> c" by (simp add: c_def)
  have c3: "c ^ 3 = real n" unfolding c_def by (rule real_root_pow_pos2) simp_all
  have "real ((1000 * r) ^ 3) < real (997 ^ 3 * n)" using assms by (simp only: of_nat_less_iff)
  then have "(1000 * real r) ^ 3 < (997 * c) ^ 3" by (simp add: power_mult_distrib c3)
  then have "1000 * real r < 997 * c" by (rule power_less_imp_less_base) (simp add: c0)
  then show ?thesis unfolding c_def [symmetric] by linarith
qed

subsection \<open>The machine function\<close>

lemma fls64_ge: "64 \<le> unat a \<Longrightarrow> 7 \<le> fls64 a"
  using fls64_small [of a] by (cases "7 \<le> fls64 a") simp_all

lemma cubic_root_monotone_from_464:
  fixes a b :: u64
  assumes "464 \<le> a" "a \<le> b"
  shows "\<exists>ra rb. cubic_root a = Some ra \<and> cubic_root b = Some rb \<and> ra \<le> rb"
proof -
  have na: "464 \<le> unat a" and nab: "unat a \<le> unat b"
    using assms by (simp_all add: word_le_nat_alt)
  have nb: "unat b < 2 ^ 64" using unsigned_less [of b] by simp
  have "7 \<le> fls64 a" "7 \<le> fls64 b" using na nab by (simp_all add: fls64_ge)
  then obtain ra rb where ra: "cubic_root a = Some ra" "unat ra = cr_nat (unat a)"
    and rb: "cubic_root b = Some rb" "unat rb = cr_nat (unat b)"
    using cubic_root_nat by blast
  have "cr_nat (unat a) \<le> cr_nat (unat b)" using na nab nb by (rule cr_nat_mono)
  then have "ra \<le> rb" by (simp add: word_le_nat_alt ra(2) rb(2))
  with ra(1) rb(1) show ?thesis by blast
qed

lemma cubic_root_error_from_threshold:
  fixes a :: u64
  assumes "52395120 \<le> a"
  shows "\<exists>r. cubic_root a = Some r \<and>
    \<bar>real (unat r) - root 3 (real (unat a))\<bar> \<le> 3 / 1000 * root 3 (real (unat a))"
proof -
  have na: "52395120 \<le> unat a" using assms by (simp add: word_le_nat_alt)
  have n64: "unat a < 2 ^ 64" using unsigned_less [of a] by simp
  have "7 \<le> fls64 a" using na by (simp add: fls64_ge)
  then obtain r where r: "cubic_root a = Some r" "unat r = cr_nat (unat a)"
    using cubic_root_nat by blast
  have lo: "997 ^ 3 * unat a \<le> (1000 * unat r) ^ 3"
    unfolding r(2) using na n64 by (rule cr_nat_lower)
  have hi: "(1000 * unat r) ^ 3 \<le> 1003 ^ 3 * unat a"
    unfolding r(2) using na n64 by (intro cr_nat_upper) simp_all
  from relative_error_real [OF lo hi] r(1) show ?thesis by blast
qed

text \<open>
  Claim C8, as amended. \<open>cubic_root\<close> is non-decreasing on the inputs from 464 on: for
  \<open>464 \<le> a \<le> b\<close>, \<open>cubic_root(a) \<le> cubic_root(b)\<close>. For every input \<open>a \<ge> 52395120\<close>, its
  result is within 0.3% of the real cube root of \<open>a\<close>.
\<close>

theorem cubic_root_accuracy:
  fixes a b :: u64
  shows "(464 \<le> a \<and> a \<le> b \<longrightarrow>
           (\<exists>ra rb. cubic_root a = Some ra \<and> cubic_root b = Some rb \<and> ra \<le> rb)) \<and>
         (52395120 \<le> a \<longrightarrow>
           (\<exists>r. cubic_root a = Some r \<and>
              \<bar>real (unat r) - root 3 (real (unat a))\<bar> \<le> 3 / 1000 * root 3 (real (unat a))))"
  using cubic_root_monotone_from_464 [of a b] cubic_root_error_from_threshold [of a] by blast

text \<open>The inputs 1000 and \<open>10\<^sup>9\<close>.\<close>

theorem cubic_root_accuracy_witness:
  "464 \<le> (1000 :: u64) \<and> (1000 :: u64) \<le> 1000000000 \<and>
   (\<exists>ra rb. cubic_root 1000 = Some ra \<and> cubic_root 1000000000 = Some rb \<and> ra \<le> rb) \<and>
   52395120 \<le> (1000000000 :: u64) \<and>
   (\<exists>r. cubic_root 1000000000 = Some r \<and>
      \<bar>real (unat r) - root 3 (real (unat (1000000000 :: u64)))\<bar>
        \<le> 3 / 1000 * root 3 (real (unat (1000000000 :: u64))))"
  using cubic_root_accuracy [of 1000 1000000000] cubic_root_accuracy [of 1000000000 0]
  by simp

text \<open>
  Claim C8 as it is written fails, and the two bounds of the amended claim are the
  least ones. \<open>cubic_root\<close> decreases from 5 to 4 between the inputs 111 and 112, and from
  8 to 7 between 463 and 464. \<open>cubic_root(2)\<close> is 1, more than 0.3% below the cube root of
  2, and \<open>cubic_root(52395119)\<close> is 373, more than 0.3% below the cube root of 52395119.
\<close>

theorem cubic_root_accuracy_counterexample:
  "cubic_root 111 = Some 5 \<and> cubic_root 112 = Some 4 \<and>
   cubic_root 463 = Some 8 \<and> cubic_root 464 = Some 7 \<and>
   cubic_root 2 = Some 1 \<and>
   \<not> \<bar>real (unat (1 :: u32)) - root 3 (real (unat (2 :: u64)))\<bar>
       \<le> 3 / 1000 * root 3 (real (unat (2 :: u64))) \<and>
   cubic_root 52395119 = Some 373 \<and>
   \<not> \<bar>real (unat (373 :: u32)) - root 3 (real (unat (52395119 :: u64)))\<bar>
       \<le> 3 / 1000 * root 3 (real (unat (52395119 :: u64)))"
proof -
  note defs = cubic_root_def fls64_def fls_nat.simps cubic_root_x0_def cubic_root_newton_def
    cubic_root_small_def cubic_root_v_def
  have a: "cubic_root 111 = Some 5" by (simp add: defs)
  have b: "cubic_root 112 = Some 4" by (simp add: defs)
  have c: "cubic_root 463 = Some 8" by (simp add: defs)
  have d: "cubic_root 464 = Some 7" by (simp add: defs)
  have e: "cubic_root 2 = Some 1" by (simp add: defs)
  have f: "\<not> \<bar>real (unat (1 :: u32)) - root 3 (real (unat (2 :: u64)))\<bar>
       \<le> 3 / 1000 * root 3 (real (unat (2 :: u64)))"
    using relative_error_below [of 1 2] by simp
  have g: "cubic_root 52395119 = Some 373" by (simp add: defs)
  have h: "\<not> \<bar>real (unat (373 :: u32)) - root 3 (real (unat (52395119 :: u64)))\<bar>
       \<le> 3 / 1000 * root 3 (real (unat (52395119 :: u64)))"
    using relative_error_below [of 373 52395119] by simp
  from a b c d e f g h show ?thesis by blast
qed

end
